theory Spec2Isabelle
  imports Complex_Main "HOL-Library.Word"
begin

unbundle bit_operations_syntax

section \<open>JavaScript numbers\<close>

text \<open>
  A TypeScript \<open>number\<close> is modelled as an exact real, extended by the three special
  values that the renderer can produce through a division by zero. Rounding to binary64
  and the sign of zero are not modelled: every finite result is the exact real result,
  and a division of a non-zero finite number by zero takes the sign of the numerator.
\<close>

datatype jsnum = Fin real | PInf | NInf | NaN

fun jneg :: "jsnum \<Rightarrow> jsnum" where
  "jneg (Fin a) = Fin (- a)"
| "jneg PInf = NInf"
| "jneg NInf = PInf"
| "jneg NaN = NaN"

fun jadd :: "jsnum \<Rightarrow> jsnum \<Rightarrow> jsnum" where
  "jadd (Fin a) (Fin b) = Fin (a + b)"
| "jadd NaN _ = NaN"
| "jadd _ NaN = NaN"
| "jadd PInf NInf = NaN"
| "jadd NInf PInf = NaN"
| "jadd PInf _ = PInf"
| "jadd _ PInf = PInf"
| "jadd NInf _ = NInf"
| "jadd _ NInf = NInf"

definition jsub :: "jsnum \<Rightarrow> jsnum \<Rightarrow> jsnum" where
  "jsub a b = jadd a (jneg b)"

text \<open>The product of an infinity with a finite number: NaN at zero, else by sign.\<close>

definition inf_times :: "bool \<Rightarrow> real \<Rightarrow> jsnum" where
  "inf_times positive a =
     (if a = 0 then NaN else if (0 < a) = positive then PInf else NInf)"

fun jmul :: "jsnum \<Rightarrow> jsnum \<Rightarrow> jsnum" where
  "jmul (Fin a) (Fin b) = Fin (a * b)"
| "jmul NaN _ = NaN"
| "jmul _ NaN = NaN"
| "jmul PInf (Fin a) = inf_times True a"
| "jmul NInf (Fin a) = inf_times False a"
| "jmul (Fin a) PInf = inf_times True a"
| "jmul (Fin a) NInf = inf_times False a"
| "jmul PInf PInf = PInf"
| "jmul NInf NInf = PInf"
| "jmul PInf NInf = NInf"
| "jmul NInf PInf = NInf"

fun jdiv :: "jsnum \<Rightarrow> jsnum \<Rightarrow> jsnum" where
  "jdiv (Fin a) (Fin b) =
     (if b \<noteq> 0 then Fin (a / b)
      else if a = 0 then NaN else if 0 < a then PInf else NInf)"
| "jdiv NaN _ = NaN"
| "jdiv _ NaN = NaN"
| "jdiv (Fin a) PInf = Fin 0"
| "jdiv (Fin a) NInf = Fin 0"
| "jdiv PInf (Fin b) = (if 0 \<le> b then PInf else NInf)"
| "jdiv NInf (Fin b) = (if 0 \<le> b then NInf else PInf)"
| "jdiv PInf PInf = NaN"
| "jdiv PInf NInf = NaN"
| "jdiv NInf PInf = NaN"
| "jdiv NInf NInf = NaN"

text \<open>\<open>Math.abs\<close> and \<open>Math.floor\<close>.\<close>

fun jabs :: "jsnum \<Rightarrow> jsnum" where
  "jabs (Fin a) = Fin \<bar>a\<bar>"
| "jabs PInf = PInf"
| "jabs NInf = PInf"
| "jabs NaN = NaN"

fun jfloor :: "jsnum \<Rightarrow> jsnum" where
  "jfloor (Fin a) = Fin (of_int \<lfloor>a\<rfloor>)"
| "jfloor PInf = PInf"
| "jfloor NInf = NInf"
| "jfloor NaN = NaN"

text \<open>The comparisons \<open><\<close>, \<open>>=\<close> and \<open>===\<close>: each is false when an operand is NaN.\<close>

fun jlt :: "jsnum \<Rightarrow> jsnum \<Rightarrow> bool" where
  "jlt (Fin a) (Fin b) = (a < b)"
| "jlt NaN _ = False"
| "jlt _ NaN = False"
| "jlt _ NInf = False"
| "jlt PInf _ = False"
| "jlt NInf _ = True"
| "jlt _ PInf = True"

fun jge :: "jsnum \<Rightarrow> jsnum \<Rightarrow> bool" where
  "jge (Fin a) (Fin b) = (b \<le> a)"
| "jge NaN _ = False"
| "jge _ NaN = False"
| "jge PInf _ = True"
| "jge _ NInf = True"
| "jge NInf _ = False"
| "jge _ PInf = False"

definition jeq :: "jsnum \<Rightarrow> jsnum \<Rightarrow> bool" where
  "jeq a b = (a \<noteq> NaN \<and> a = b)"

section \<open>The maze game's map: pellets\<close>

text \<open>
  \<open>Position\<close>, \<open>Wall\<close> and \<open>MapData\<close> of the maze game. The fields \<open>x\<close>, \<open>y\<close>,
  \<open>width\<close> and \<open>height\<close> carry a prefix here, because the player and the engine of the
  raycaster have fields of the same names.
\<close>

record Position =
  pos_x :: real
  pos_y :: real

record Wall =
  wall_x :: real
  wall_y :: real
  wall_width :: real
  wall_height :: real

record MapData =
  walls :: "Wall list"
  pellets :: "Position list"
  powerPellets :: "Position list"
  md_width :: real
  md_height :: real
  cellSize :: real

text \<open>\<open>Array.prototype.findIndex\<close>: the index of the first match, or \<open>-1\<close>.\<close>

primrec findIndex :: "('a \<Rightarrow> bool) \<Rightarrow> 'a list \<Rightarrow> int" where
  "findIndex P [] = - 1"
| "findIndex P (a # as) =
     (if P a then 0 else (let i = findIndex P as in if i = - 1 then - 1 else i + 1))"

text \<open>
  \<open>Array.prototype.splice(start, deleteCount)\<close> on integer arguments: a negative start
  counts from the end, and both are clamped to the array.
\<close>

definition splice :: "'a list \<Rightarrow> int \<Rightarrow> int \<Rightarrow> 'a list" where
  "splice xs start deleteCount =
     (let len = int (length xs);
          s = (if start < 0 then max (len + start) 0 else min start len);
          n = min (max deleteCount 0) (len - s)
      in take (nat s) xs @ drop (nat (s + n)) xs)"

text \<open>\<open>GameMap.removePellet\<close>: the map data after the call, and the returned flag.\<close>

definition removePellet :: "MapData \<Rightarrow> jsnum \<Rightarrow> jsnum \<Rightarrow> MapData \<times> bool" where
  "removePellet mapData x y =
     (let cellX = jfloor (jdiv x (Fin (cellSize mapData)));
          cellY = jfloor (jdiv y (Fin (cellSize mapData)));
          pelletIndex = findIndex (\<lambda>p. jeq (Fin (pos_x p)) cellX \<and> jeq (Fin (pos_y p)) cellY)
                          (pellets mapData)
      in if pelletIndex \<noteq> - 1
         then (mapData\<lparr>pellets := splice (pellets mapData) pelletIndex 1\<rparr>, True)
         else (mapData, False))"

section \<open>The raycaster: player and pose updates\<close>

text \<open>
  The player of both engine files. The fields \<open>armor\<close>, \<open>frags\<close> and \<open>keys\<close> of the
  second file are read by no function modelled here and are left out. The six pose
  fields start finite and are only ever updated by sums and products of finite numbers,
  so they are reals.
\<close>

record Player =
  x :: real
  y :: real
  dirX :: real
  dirY :: real
  planeX :: real
  planeY :: real
  health :: int
  ammo :: int
  weapon :: int

definition moveSpeed :: real where
  "moveSpeed = 0.05"

definition rotSpeed :: real where
  "rotSpeed = 0.03"

text \<open>The two rotation branches of the key handler (the same in both engine files).\<close>

definition rotate_left :: "Player \<Rightarrow> Player" where
  "rotate_left p =
     (let oldDirX = dirX p;
          p1 = p\<lparr>dirX := dirX p * cos (- rotSpeed) - dirY p * sin (- rotSpeed)\<rparr>;
          p2 = p1\<lparr>dirY := oldDirX * sin (- rotSpeed) + dirY p1 * cos (- rotSpeed)\<rparr>;
          oldPlaneX = planeX p2;
          p3 = p2\<lparr>planeX := planeX p2 * cos (- rotSpeed) - planeY p2 * sin (- rotSpeed)\<rparr>
      in p3\<lparr>planeY := oldPlaneX * sin (- rotSpeed) + planeY p3 * cos (- rotSpeed)\<rparr>)"

definition rotate_right :: "Player \<Rightarrow> Player" where
  "rotate_right p =
     (let oldDirX = dirX p;
          p1 = p\<lparr>dirX := dirX p * cos rotSpeed - dirY p * sin rotSpeed\<rparr>;
          p2 = p1\<lparr>dirY := oldDirX * sin rotSpeed + dirY p1 * cos rotSpeed\<rparr>;
          oldPlaneX = planeX p2;
          p3 = p2\<lparr>planeX := planeX p2 * cos rotSpeed - planeY p2 * sin rotSpeed\<rparr>
      in p3\<lparr>planeY := oldPlaneX * sin rotSpeed + planeY p3 * cos rotSpeed\<rparr>)"


section \<open>Grid, textures and engine state\<close>

text \<open>
  Reading element \<open>i\<close> of a JavaScript array gives \<open>undefined\<close> (here \<open>None\<close>) when \<open>i\<close> is
  not an index of the array.
\<close>

definition js_index :: "'a list \<Rightarrow> int \<Rightarrow> 'a option" where
  "js_index xs i = (if 0 \<le> i \<and> i < int (length xs) then Some (xs ! nat i) else None)"

text \<open>
  \<open>worldMap[i][j]\<close>: when the row is \<open>undefined\<close> the second index raises a TypeError
  (\<open>NoRow\<close>); when only the element is missing the value is \<open>undefined\<close> (\<open>NoCell\<close>).
\<close>

datatype cellval = NoRow | NoCell | Cell int

definition cell_at :: "int list list \<Rightarrow> int \<Rightarrow> int \<Rightarrow> cellval" where
  "cell_at m i j =
     (case js_index m i of
        None \<Rightarrow> NoRow
      | Some row \<Rightarrow> (case js_index row j of None \<Rightarrow> NoCell | Some v \<Rightarrow> Cell v))"

text \<open>
  The result of a piece of code that can raise: \<open>Done s\<close> when it ran to its end in state
  \<open>s\<close>, \<open>TypeError s\<close> when a TypeError was raised in state \<open>s\<close>.
\<close>

datatype 'a outcome = Done 'a | TypeError 'a

fun final :: "'a outcome \<Rightarrow> 'a" where
  "final (Done s) = s"
| "final (TypeError s) = s"

fun and_then :: "'a outcome \<Rightarrow> ('a \<Rightarrow> 'a outcome) \<Rightarrow> 'a outcome" where
  "and_then (Done s) f = f s"
| "and_then (TypeError s) f = TypeError s"

text \<open>A texture; its fields \<open>width\<close> and \<open>height\<close> carry a prefix. \<open>pixels\<close> is a Uint32Array.\<close>

record Texture =
  t_width :: int
  t_height :: int
  pixels :: "32 word list"

text \<open>
  The fields of \<open>DoomEngine\<close> that the modelled methods read. The screen and grid sizes
  are constants of the class (1024 x 768 in the first engine file, 960 x 720 in the
  second, a 32 x 32 grid in both); they are fields here, so that statements can be made
  for small grids as well. \<open>weaponBob\<close> exists in the second file only.
\<close>

record Engine =
  width :: nat
  height :: nat
  player :: Player
  mapWidth :: int
  mapHeight :: int
  worldMap :: "int list list"
  textures :: "Texture list"
  weaponBob :: real

section \<open>Raycasting: the DDA walk\<close>

text \<open>The per-column constants of a ray, and the variables of the DDA loop.\<close>

record Ray =
  rayDirX :: real
  rayDirY :: real
  deltaDistX :: jsnum
  deltaDistY :: jsnum

text \<open>
  \<open>stepX\<close> and \<open>stepY\<close> are assigned once, from the sign of the ray direction, in the
  branches that also set the initial side distances.
\<close>

definition stepX :: "Ray \<Rightarrow> int" where
  "stepX r = (if rayDirX r < 0 then - 1 else 1)"

definition stepY :: "Ray \<Rightarrow> int" where
  "stepY r = (if rayDirY r < 0 then - 1 else 1)"

text \<open>\<open>steps\<close> is a ghost counter of loop iterations; the code has no such variable.\<close>

record dda_state =
  sideDistX :: jsnum
  sideDistY :: jsnum
  mapX :: int
  mapY :: int
  side :: int
  steps :: nat

definition make_ray :: "Engine \<Rightarrow> nat \<Rightarrow> Ray" where
  "make_ray e col =
     (let cameraX = 2 * real col / real (width e) - 1;
          rdx = dirX (player e) + planeX (player e) * cameraX;
          rdy = dirY (player e) + planeY (player e) * cameraX
      in \<lparr>rayDirX = rdx, rayDirY = rdy,
          deltaDistX = jabs (jdiv (Fin 1) (Fin rdx)),
          deltaDistY = jabs (jdiv (Fin 1) (Fin rdy))\<rparr>)"

definition dda_init :: "Engine \<Rightarrow> Ray \<Rightarrow> dda_state" where
  "dda_init e r =
     (let px = x (player e); py = y (player e);
          mx = \<lfloor>px\<rfloor>; my = \<lfloor>py\<rfloor>
      in \<lparr>sideDistX =
            (if rayDirX r < 0 then jmul (Fin (px - of_int mx)) (deltaDistX r)
             else jmul (Fin (of_int mx + 1.0 - px)) (deltaDistX r)),
          sideDistY =
            (if rayDirY r < 0 then jmul (Fin (py - of_int my)) (deltaDistY r)
             else jmul (Fin (of_int my + 1.0 - py)) (deltaDistY r)),
          mapX = mx, mapY = my, side = 0, steps = 0\<rparr>)"

text \<open>One iteration of the loop body up to the bounds test.\<close>

definition dda_advance :: "Ray \<Rightarrow> dda_state \<Rightarrow> dda_state" where
  "dda_advance r s =
     (if jlt (sideDistX s) (sideDistY s)
      then s\<lparr>sideDistX := jadd (sideDistX s) (deltaDistX r),
             mapX := mapX s + stepX r, side := 0, steps := Suc (steps s)\<rparr>
      else s\<lparr>sideDistY := jadd (sideDistY s) (deltaDistY r),
             mapY := mapY s + stepY r, side := 1, steps := Suc (steps s)\<rparr>)"

definition in_grid :: "Engine \<Rightarrow> int \<Rightarrow> int \<Rightarrow> bool" where
  "in_grid e mx my = (0 \<le> mx \<and> mx < mapWidth e \<and> 0 \<le> my \<and> my < mapHeight e)"

text \<open>
  The measure of the loop: the number of cells left before the walk leaves the grid in
  its two directions of travel.
\<close>

definition dda_room :: "Engine \<Rightarrow> Ray \<Rightarrow> dda_state \<Rightarrow> nat" where
  "dda_room e r s =
     nat ((if stepX r = 1 then mapWidth e - mapX s else mapX s + 1) +
          (if stepY r = 1 then mapHeight e - mapY s else mapY s + 1))"

lemma dda_room_decreases:
  "in_grid e (mapX (dda_advance r s)) (mapY (dda_advance r s)) \<Longrightarrow>
   dda_room e r (dda_advance r s) < dda_room e r s"
  by (auto simp: in_grid_def dda_room_def dda_advance_def stepX_def stepY_def split: if_splits)

text \<open>The loop \<open>while (!hit)\<close>.\<close>

function dda :: "Engine \<Rightarrow> Ray \<Rightarrow> dda_state \<Rightarrow> dda_state outcome" where
  "dda e r s =
     (if in_grid e (mapX (dda_advance r s)) (mapY (dda_advance r s))
      then (case cell_at (worldMap e) (mapY (dda_advance r s)) (mapX (dda_advance r s)) of
              NoRow \<Rightarrow> TypeError (dda_advance r s)
            | NoCell \<Rightarrow> dda e r (dda_advance r s)
            | Cell v \<Rightarrow> if v > 0 then Done (dda_advance r s) else dda e r (dda_advance r s))
      else Done (dda_advance r s))"
  by pat_completeness auto
termination
  by (relation "measure (\<lambda>(e, r, s). dda_room e r s)") (auto simp: dda_room_decreases)

declare dda.simps [simp del]

definition cast_ray :: "Engine \<Rightarrow> nat \<Rightarrow> dda_state outcome" where
  "cast_ray e col = dda e (make_ray e col) (dda_init e (make_ray e col))"

definition perpWallDist :: "Engine \<Rightarrow> Ray \<Rightarrow> dda_state \<Rightarrow> jsnum" where
  "perpWallDist e r s =
     (if side s = 0
      then jdiv (Fin (of_int (mapX s) - x (player e) + (1 - of_int (stepX r)) / 2))
                (Fin (rayDirX r))
      else jdiv (Fin (of_int (mapY s) - y (player e) + (1 - of_int (stepY r)) / 2))
                (Fin (rayDirY r)))"

section \<open>Movement with collision\<close>

text \<open>
  The test \<open>worldMap[i][j] === 0\<close> of the key handler: \<open>None\<close> when it raises a TypeError
  (no row \<open>i\<close>); an \<open>undefined\<close> element is not equal to 0.
\<close>

definition is_free :: "int list list \<Rightarrow> int \<Rightarrow> int \<Rightarrow> bool option" where
  "is_free m i j =
     (case cell_at m i j of NoRow \<Rightarrow> None | NoCell \<Rightarrow> Some False | Cell v \<Rightarrow> Some (v = 0))"

text \<open>
  The two statements of every movement branch:
  \<open>if (worldMap[floor(player.y)][floor(probe)] === 0) player.x = target\<close> and
  \<open>if (worldMap[floor(probe)][floor(player.x)] === 0) player.y = target\<close>.
  The player is updated in place, so the second statement reads the \<open>x\<close> that the first
  one left, and a TypeError keeps what was written before it.
\<close>

definition try_x :: "int list list \<Rightarrow> real \<Rightarrow> real \<Rightarrow> Player \<Rightarrow> Player outcome" where
  "try_x m probe target p =
     (case is_free m \<lfloor>y p\<rfloor> \<lfloor>probe\<rfloor> of
        None \<Rightarrow> TypeError p
      | Some ok \<Rightarrow> Done (if ok then p\<lparr>x := target\<rparr> else p))"

definition try_y :: "int list list \<Rightarrow> real \<Rightarrow> real \<Rightarrow> Player \<Rightarrow> Player outcome" where
  "try_y m probe target p =
     (case is_free m \<lfloor>probe\<rfloor> \<lfloor>x p\<rfloor> of
        None \<Rightarrow> TypeError p
      | Some ok \<Rightarrow> Done (if ok then p\<lparr>y := target\<rparr> else p))"

datatype intent = Forward | Backward | StrafeLeft | StrafeRight

text \<open>
  The four movement branches of the first engine file (keys w, s, a, d): the cell probed
  is two steps ahead, the player moves one step.
\<close>

fun move_main :: "int list list \<Rightarrow> intent \<Rightarrow> Player \<Rightarrow> Player outcome" where
  "move_main m Forward p =
     and_then (try_x m (x p + dirX p * moveSpeed * 2) (x p + dirX p * moveSpeed) p)
       (\<lambda>p. try_y m (y p + dirY p * moveSpeed * 2) (y p + dirY p * moveSpeed) p)"
| "move_main m Backward p =
     and_then (try_x m (x p - dirX p * moveSpeed * 2) (x p - dirX p * moveSpeed) p)
       (\<lambda>p. try_y m (y p - dirY p * moveSpeed * 2) (y p - dirY p * moveSpeed) p)"
| "move_main m StrafeLeft p =
     (let strafeX = - dirY p * moveSpeed; strafeY = dirX p * moveSpeed
      in and_then (try_x m (x p + strafeX * 2) (x p + strafeX) p)
           (\<lambda>p. try_y m (y p + strafeY * 2) (y p + strafeY) p))"
| "move_main m StrafeRight p =
     (let strafeX = dirY p * moveSpeed; strafeY = - dirX p * moveSpeed
      in and_then (try_x m (x p + strafeX * 2) (x p + strafeX) p)
           (\<lambda>p. try_y m (y p + strafeY * 2) (y p + strafeY) p))"

text \<open>
  The four movement branches of the second engine file: the cell probed is the cell of
  the candidate position. (The weapon bob that the forward branch also sets is not part
  of the player.)
\<close>

fun move_doom :: "int list list \<Rightarrow> intent \<Rightarrow> Player \<Rightarrow> Player outcome" where
  "move_doom m Forward p =
     (let newX = x p + dirX p * moveSpeed; newY = y p + dirY p * moveSpeed
      in and_then (try_x m newX newX p) (\<lambda>p. try_y m newY newY p))"
| "move_doom m Backward p =
     (let newX = x p - dirX p * moveSpeed; newY = y p - dirY p * moveSpeed
      in and_then (try_x m newX newX p) (\<lambda>p. try_y m newY newY p))"
| "move_doom m StrafeLeft p =
     (let strafeX = - dirY p * moveSpeed; strafeY = dirX p * moveSpeed
      in and_then (try_x m (x p + strafeX) (x p + strafeX) p)
           (\<lambda>p. try_y m (y p + strafeY) (y p + strafeY) p))"
| "move_doom m StrafeRight p =
     (let strafeX = dirY p * moveSpeed; strafeY = - dirX p * moveSpeed
      in and_then (try_x m (x p + strafeX) (x p + strafeX) p)
           (\<lambda>p. try_y m (y p + strafeY) (y p + strafeY) p))"

section \<open>Map generation\<close>

text \<open>
  \<open>Math.random()\<close> is the next number of a stream of numbers; the stream is any function
  from call positions to reals. The contract of \<open>Math.random\<close>, a value in \<open>[0, 1)\<close>, is a
  hypothesis of the statements about generation.
\<close>

type_synonym rng = "nat \<Rightarrow> real"

definition math_random :: "rng \<Rightarrow> real \<times> rng" where
  "math_random g = (g 0, (\<lambda>n. g (Suc n)))"

text \<open>
  \<open>map[i][j] = v\<close>. Every write of the generators is to a cell of the 32 x 32 grid: the
  indices are loop variables or literals below 32, or they were just read as a cell
  that holds 0.
\<close>

definition set_cell :: "int list list \<Rightarrow> nat \<Rightarrow> nat \<Rightarrow> int \<Rightarrow> int list list" where
  "set_cell m i j v = m[i := (m ! i)[j := v]]"

text \<open>Two nested counting loops, \<open>for (y = y0; y < y1; y++) for (x = x0; x < x1; x++)\<close>.\<close>

definition for_yx :: "nat \<Rightarrow> nat \<Rightarrow> nat \<Rightarrow> nat \<Rightarrow> (nat \<Rightarrow> nat \<Rightarrow> 's \<Rightarrow> 's) \<Rightarrow> 's \<Rightarrow> 's" where
  "for_yx y0 y1 x0 x1 body s = fold (\<lambda>i. fold (\<lambda>j. body i j) [x0..<x1]) [y0..<y1] s"

text \<open>The grid of zeros, and the outer walls (both files).\<close>

definition empty_map :: "int list list" where
  "empty_map = replicate 32 (replicate 32 0)"

definition outer_walls :: "int list list \<Rightarrow> int list list" where
  "outer_walls m =
     fold (\<lambda>i m. set_cell (set_cell m i 0 1) i (32 - 1) 1) [0..<32]
       (fold (\<lambda>j m. set_cell (set_cell m 0 j 1) (32 - 1) j 1) [0..<32] m)"

text \<open>
  A room cell of the first file:
  \<open>if (Math.random() > thr) map[y][x] = Math.floor(Math.random() * 4) + 1\<close>.
\<close>

definition room_cell :: "real \<Rightarrow> nat \<Rightarrow> nat \<Rightarrow> int list list \<times> rng \<Rightarrow> int list list \<times> rng" where
  "room_cell thr i j s =
     (let (m, g) = s; (u, g1) = math_random g
      in if u > thr
         then (let (v, g2) = math_random g1 in (set_cell m i j (\<lfloor>v * 4\<rfloor> + 1), g2))
         else (m, g1))"

text \<open>
  One iteration of the random pillar loop; \<open>k\<close> is the number of wall codes to draw from
  (5 in the first file, 4 in the second). The test \<open>map[y][x] === 0\<close> raises a TypeError
  when there is no row \<open>y\<close>.
\<close>

definition pillar :: "int \<Rightarrow> int list list \<times> rng \<Rightarrow> (int list list \<times> rng) outcome" where
  "pillar k s =
     (let (m, g) = s;
          (u, g1) = math_random g; px = \<lfloor>u * 28\<rfloor> + 2;
          (v, g2) = math_random g1; py = \<lfloor>v * 28\<rfloor> + 2
      in case is_free m py px of
           None \<Rightarrow> TypeError (m, g2)
         | Some False \<Rightarrow> Done (m, g2)
         | Some True \<Rightarrow>
             (let (w, g3) = math_random g2
              in Done (set_cell m (nat py) (nat px) (\<lfloor>w * of_int k\<rfloor> + 1), g3)))"

primrec pillars :: "nat \<Rightarrow> int \<Rightarrow> int list list \<times> rng \<Rightarrow> (int list list \<times> rng) outcome" where
  "pillars 0 k s = Done s"
| "pillars (Suc n) k s = and_then (pillar k s) (pillars n k)"

text \<open>
  \<open>generateLargeMap\<close> of the first engine file, in two parts: the layout (outer walls,
  four rooms of random wall codes, corridor walls, four fixed pillars) and the loop of
  ten random pillars.
\<close>

definition large_map_layout :: "rng \<Rightarrow> int list list \<times> rng" where
  "large_map_layout g =
     (let m1 = outer_walls empty_map;
          s1 = for_yx 3 8 3 8 (room_cell 0.3) (m1, g);
          s2 = for_yx 3 8 20 28 (room_cell 0.4) s1;
          s3 = for_yx 20 28 3 8 (room_cell 0.4) s2;
          s4 = for_yx 20 28 20 28 (room_cell 0.2) s3;
          m5 = fold (\<lambda>j m. set_cell (set_cell m 8 j 1) 20 j 1) [8..<20] (fst s4);
          m6 = fold (\<lambda>i m. set_cell (set_cell m i 8 1) i 20 1) [8..<20] m5;
          m7 = set_cell (set_cell (set_cell (set_cell m6 22 22 2) 22 25 3) 25 22 4) 25 25 5
      in (m7, snd s4))"

definition generateLargeMap :: "rng \<Rightarrow> (int list list \<times> rng) outcome" where
  "generateLargeMap g = pillars 10 5 (large_map_layout g)"

text \<open>
  \<open>createDoomMap\<close> of the second engine file, again as the layout (outer walls, hall
  pillars, two rooms with one wall code each, the secret area, two corridor walls) and
  the loop of twenty random decorations.
\<close>

definition room_cell_doom :: "int \<Rightarrow> nat \<Rightarrow> nat \<Rightarrow> int list list \<times> rng \<Rightarrow> int list list \<times> rng" where
  "room_cell_doom code i j s =
     (let (m, g) = s; (u, g1) = math_random g
      in if u > 0.3 then (set_cell m i j code, g1) else (m, g1))"

definition doom_map_layout :: "rng \<Rightarrow> int list list \<times> rng" where
  "doom_map_layout g =
     (let m1 = outer_walls empty_map;
          m2 = for_yx 5 10 5 20
                 (\<lambda>i j m. if j mod 3 = 0 \<and> i mod 3 = 0 then set_cell m i j 2 else m) m1;
          s3 = for_yx 15 22 5 12 (room_cell_doom 3) (m2, g);
          s4 = for_yx 15 22 18 25 (room_cell_doom 4) s3;
          m5 = set_cell (fst s4) 25 25 5;
          m6 = for_yx 22 28 22 28
                 (\<lambda>i j m. if i > 23 \<and> j > 23 then set_cell m i j 6 else m) m5;
          m7 = fold (\<lambda>i m. set_cell (set_cell m i 12 1) i 17 1) [10..<22] m6
      in (m7, snd s4))"

definition createDoomMap :: "rng \<Rightarrow> (int list list \<times> rng) outcome" where
  "createDoomMap g = pillars 20 4 (doom_map_layout g)"

section \<open>Textures\<close>

text \<open>
  \<open>generateTextures\<close> of the first engine file: eight 64 x 64 textures, the colour of
  texel \<open>(tx, ty)\<close> of texture \<open>t\<close> by the \<open>switch\<close> of the source, stored at index
  \<open>ty * 64 + tx\<close>.
\<close>

definition main_texel :: "nat \<Rightarrow> nat \<Rightarrow> nat \<Rightarrow> nat" where
  "main_texel t tx ty =
     (if t = 0 then (if (tx div 8 + ty div 8) mod 2 = 0 then 0x8B4513 else 0xCD853F)
      else if t = 1 then 0x808080 + ((tx XOR ty) mod 0x40)
      else if t = 2 then (if ty mod 16 < 8 then 0x8B4513 else 0xD2691E)
      else if t = 3 then 0x4A4A4A + ((tx * ty) mod 0x30)
      else if t = 4 then 0x654321
      else if t = 5 then (if tx mod 16 < 8 \<and> ty mod 16 < 8 then 0x8B0000 else 0x5C4033)
      else if t = 6 then (if tx mod 8 < 4 \<and> ty mod 8 < 4 then 0x00FF00 else 0x006400)
      else if t = 7 then 0xE0E0E0 - ((tx + ty) mod 0x40)
      else 0)"

definition make_texture :: "(nat \<Rightarrow> nat \<Rightarrow> nat) \<Rightarrow> Texture" where
  "make_texture texel =
     \<lparr>t_width = 64, t_height = 64,
      pixels = map (\<lambda>i. word_of_nat (texel (i mod 64) (i div 64))) [0..<64 * 64]\<rparr>"

definition main_textures :: "Texture list" where
  "main_textures = map (\<lambda>t. make_texture (main_texel t)) [0..<8]"

text \<open>
  The eight texture functions of the second engine file, in the order of its
  \<open>generateTextures\<close>: brick, stone, computer, metal, wood, marble, door, blood. A grey
  level \<open>v\<close> computed in floating point is packed as \<open>(v << 16) | (v << 8) | v\<close>, which
  truncates \<open>v\<close> to an integer first.
\<close>

definition grey :: "real \<Rightarrow> nat" where
  "grey v = (let n = nat \<lfloor>v\<rfloor> in push_bit 16 n OR push_bit 8 n OR n)"

definition doom_texel :: "nat \<Rightarrow> nat \<Rightarrow> nat \<Rightarrow> nat" where
  "doom_texel t tx ty =
     (if t = 0 then (if (ty div 16 + tx div 32) mod 2 = 0 then 0x8B4513 else 0x5D3A1A)
      else if t = 1 then grey ((sin (real tx * 0.3) * cos (real ty * 0.3) * 0.2 + 0.8) * 255)
      else if t = 2 then
        (if tx mod 16 < 8 \<and> ty mod 16 < 8 then 0x00FF00
         else if tx mod 8 = 0 \<or> ty mod 8 = 0 then 0x4A4A4A else 0x2A2A2A)
      else if t = 3 then (if tx mod 16 = 8 \<and> ty mod 16 = 8 then 0xC0C0C0 else 0x808080)
      else if t = 4 then grey (sin (real ty * 0.2) * 0x20 + 0x60)
      else if t = 5 then
        (if sin (real tx * 0.2) * cos (real ty * 0.2) > 0.5 then 0xE0E0E0 else 0xFFFFFF)
      else if t = 6 then
        (if tx > 25 \<and> tx < 35 \<and> ty > 30 \<and> ty < 35 then 0xFFD700 else 0x8B4513)
      else if t = 7 then
        (if sin (real tx * 0.5) * cos (real ty * 0.5) > 0.3 then 0x8B0000 else 0x5A0000)
      else 0)"

definition doom_textures :: "Texture list" where
  "doom_textures = map (\<lambda>t. make_texture (doom_texel t)) [0..<8]"

section \<open>Raycasting: drawing a column\<close>

text \<open>
  The frame buffer is the \<open>Uint8ClampedArray\<close> of \<open>createImageData\<close>: \<open>width * height * 4\<close>
  bytes, all 0 at first. A write through an index that is not an integer index of the
  array is ignored; a read of a \<open>Uint32Array\<close> through such an index gives \<open>undefined\<close>,
  which the shifts and masks that follow treat as 0.
\<close>

type_synonym bytes = "8 word list"

definition ta_set :: "'a list \<Rightarrow> jsnum \<Rightarrow> 'a \<Rightarrow> 'a list" where
  "ta_set a i v =
     (case i of
        Fin r \<Rightarrow> (if 0 \<le> r \<and> r = of_int \<lfloor>r\<rfloor> then a[nat \<lfloor>r\<rfloor> := v] else a)
      | _ \<Rightarrow> a)"

definition ta_get :: "32 word list \<Rightarrow> jsnum \<Rightarrow> 32 word" where
  "ta_get a i =
     (case i of
        Fin r \<Rightarrow> (if 0 \<le> r \<and> r = of_int \<lfloor>r\<rfloor> \<and> nat \<lfloor>r\<rfloor> < length a then a ! nat \<lfloor>r\<rfloor> else 0)
      | _ \<Rightarrow> 0)"

text \<open>\<open>(color >> 16) & 0xFF\<close>, \<open>(color >> 8) & 0xFF\<close>, \<open>color & 0xFF\<close>, and the darkening.\<close>

definition red :: "32 word \<Rightarrow> 8 word" where
  "red c = ucast (drop_bit 16 c AND 0xFF)"

definition green :: "32 word \<Rightarrow> 8 word" where
  "green c = ucast (drop_bit 8 c AND 0xFF)"

definition blue :: "32 word \<Rightarrow> 8 word" where
  "blue c = ucast (c AND 0xFF)"

definition darken :: "32 word \<Rightarrow> 32 word" where
  "darken c =
     (let r = drop_bit 1 (drop_bit 16 c AND 0xFF);
          g = drop_bit 1 (drop_bit 8 c AND 0xFF);
          b = drop_bit 1 (c AND 0xFF)
      in push_bit 16 r OR push_bit 8 g OR b)"

text \<open>\<open>pixelIndex = (y * this.width + x) * 4\<close> and the four writes that follow it.\<close>

definition pixel_index :: "Engine \<Rightarrow> nat \<Rightarrow> jsnum \<Rightarrow> jsnum" where
  "pixel_index e col row = jmul (jadd (jmul row (Fin (real (width e)))) (Fin (real col))) (Fin 4)"

definition put_rgba :: "bytes \<Rightarrow> jsnum \<Rightarrow> 8 word \<Rightarrow> 8 word \<Rightarrow> 8 word \<Rightarrow> bytes" where
  "put_rgba data pixelIndex r g b =
     ta_set (ta_set (ta_set (ta_set data pixelIndex r)
       (jadd pixelIndex (Fin 1)) g) (jadd pixelIndex (Fin 2)) b) (jadd pixelIndex (Fin 3)) 255"

text \<open>
  A loop \<open>for (let v = start; v < limit; v++) body\<close> over numbers. It does not return
  (\<open>None\<close>) when \<open>v\<close> stays below \<open>limit\<close> for ever, as from \<open>-Infinity\<close>.
\<close>

partial_function (option) js_for :: "jsnum \<Rightarrow> jsnum \<Rightarrow> (jsnum \<Rightarrow> 'a \<Rightarrow> 'a) \<Rightarrow> 'a \<Rightarrow> 'a option" where
  "js_for v limit body s =
     (if jlt v limit then js_for (jadd v (Fin 1)) limit body (body v s) else Some s)"

text \<open>The line height and the clamped drawing limits of a column.\<close>

definition lineHeight :: "Engine \<Rightarrow> Ray \<Rightarrow> dda_state \<Rightarrow> jsnum" where
  "lineHeight e r s = jfloor (jdiv (Fin (real (height e))) (perpWallDist e r s))"

definition drawStart :: "Engine \<Rightarrow> jsnum \<Rightarrow> jsnum" where
  "drawStart e lh =
     (let ds = jadd (jdiv (jneg lh) (Fin 2)) (Fin (real (height e) / 2))
      in if jlt ds (Fin 0) then Fin 0 else ds)"

definition drawEnd :: "Engine \<Rightarrow> jsnum \<Rightarrow> jsnum" where
  "drawEnd e lh =
     (let de = jadd (jdiv lh (Fin 2)) (Fin (real (height e) / 2))
      in if jge de (Fin (real (height e))) then Fin (real (height e) - 1) else de)"

text \<open>
  \<open>texNum = worldMap[mapY][mapX] - 1\<close> and \<open>texture = textures[texNum % textures.length]\<close>.
  The result is \<open>None\<close> when the column ends in a TypeError: on a missing row at once, on
  a missing cell or a remainder that is no index of \<open>textures\<close> when \<open>texture.width\<close> is
  read. The remainder \<open>%\<close> takes the sign of the dividend.
\<close>

definition js_rem :: "int \<Rightarrow> int \<Rightarrow> int" where
  "js_rem a b = sgn a * (\<bar>a\<bar> mod \<bar>b\<bar>)"

definition get_texture :: "Engine \<Rightarrow> dda_state \<Rightarrow> Texture option" where
  "get_texture e s =
     (case cell_at (worldMap e) (mapY s) (mapX s) of
        NoRow \<Rightarrow> None
      | NoCell \<Rightarrow> None
      | Cell v \<Rightarrow>
          (let texNum = v - 1
           in if textures e = [] then None
              else js_index (textures e) (js_rem texNum (int (length (textures e))))))"

definition texX :: "Engine \<Rightarrow> Ray \<Rightarrow> dda_state \<Rightarrow> Texture \<Rightarrow> jsnum" where
  "texX e r s tex =
     (let perp = perpWallDist e r s;
          wallX = (if side s = 0 then jadd (Fin (y (player e))) (jmul perp (Fin (rayDirY r)))
                   else jadd (Fin (x (player e))) (jmul perp (Fin (rayDirX r))));
          wallX' = jsub wallX (jfloor wallX)
      in jfloor (jmul wallX' (Fin (of_int (t_width tex)))))"

text \<open>The body of the wall loop, for the row \<open>row\<close> of column \<open>col\<close>.\<close>

definition wall_pixel ::
  "Engine \<Rightarrow> nat \<Rightarrow> Texture \<Rightarrow> jsnum \<Rightarrow> jsnum \<Rightarrow> int \<Rightarrow> jsnum \<Rightarrow> bytes \<Rightarrow> bytes" where
  "wall_pixel e col tex tx lh sd row data =
     (let d = jadd (jsub (jmul row (Fin 256)) (Fin (real (height e) * 128))) (jmul lh (Fin 128));
          texY = jfloor (jdiv (jdiv (jmul d (Fin (of_int (t_height tex)))) lh) (Fin 256))
      in if jge texY (Fin 0) \<and> jlt texY (Fin (of_int (t_height tex)))
         then (let color = ta_get (pixels tex) (jadd (jmul texY (Fin (of_int (t_width tex)))) tx);
                   color' = (if sd = 1 then darken color else color)
               in put_rgba data (pixel_index e col row) (red color') (green color') (blue color'))
         else data)"

text \<open>The body of the floor loop and of the ceiling loop: one flat colour.\<close>

definition flat_pixel :: "Engine \<Rightarrow> nat \<Rightarrow> 8 word \<times> 8 word \<times> 8 word \<Rightarrow> jsnum \<Rightarrow> bytes \<Rightarrow> bytes" where
  "flat_pixel e col c row data =
     put_rgba data (pixel_index e col row) (fst c) (fst (snd c)) (snd (snd c))"

text \<open>
  The three pixel loops of a column, in the order of the source: the wall slice on
  \<open>[drawStart, drawEnd)\<close>, the floor from \<open>drawEnd + 1\<close>, the ceiling below \<open>drawStart\<close>.
\<close>

definition draw_wall :: "Engine \<Rightarrow> nat \<Rightarrow> dda_state \<Rightarrow> Texture \<Rightarrow> bytes \<Rightarrow> bytes option" where
  "draw_wall e col s tex data =
     (let r = make_ray e col; lh = lineHeight e r s
      in js_for (drawStart e lh) (drawEnd e lh)
           (wall_pixel e col tex (texX e r s tex) lh (side s)) data)"

definition draw_floor_ceiling ::
  "Engine \<Rightarrow> nat \<Rightarrow> dda_state \<Rightarrow> 8 word \<times> 8 word \<times> 8 word \<Rightarrow> 8 word \<times> 8 word \<times> 8 word \<Rightarrow>
     bytes \<Rightarrow> bytes option" where
  "draw_floor_ceiling e col s floorRGB ceilingRGB data =
     (let lh = lineHeight e (make_ray e col) s
      in case js_for (jadd (drawEnd e lh) (Fin 1)) (Fin (real (height e)))
                (flat_pixel e col floorRGB) data of
           None \<Rightarrow> None
         | Some data1 \<Rightarrow> js_for (Fin 0) (drawStart e lh) (flat_pixel e col ceilingRGB) data1)"

text \<open>
  The columns are drawn one after the other into the same buffer. A column that raises
  ends the frame (\<open>TypeError\<close>); a column that does not return leaves no frame (\<open>None\<close>).
\<close>

primrec run_columns ::
  "(nat \<Rightarrow> 's \<Rightarrow> 's outcome option) \<Rightarrow> nat list \<Rightarrow> 's \<Rightarrow> 's outcome option" where
  "run_columns f [] s = Some (Done s)"
| "run_columns f (c # cs) s =
     (case f c s of
        None \<Rightarrow> None
      | Some (TypeError s') \<Rightarrow> Some (TypeError s')
      | Some (Done s') \<Rightarrow> run_columns f cs s')"

definition blank_frame :: "Engine \<Rightarrow> bytes" where
  "blank_frame e = replicate (width e * height e * 4) 0"

section \<open>The render step of the first engine file\<close>

definition render_column_main :: "Engine \<Rightarrow> nat \<Rightarrow> bytes \<Rightarrow> bytes outcome option" where
  "render_column_main e col data =
     (case cast_ray e col of
        TypeError s \<Rightarrow> Some (TypeError data)
      | Done s \<Rightarrow>
          (case get_texture e s of
             None \<Rightarrow> Some (TypeError data)
           | Some tex \<Rightarrow>
               (case draw_wall e col s tex data of
                  None \<Rightarrow> None
                | Some data1 \<Rightarrow>
                    map_option Done
                      (draw_floor_ceiling e col s (0x40, 0x20, 0x10) (0x20, 0x10, 0x08) data1))))"

text \<open>\<open>render\<close>: the buffer that is handed to \<open>putImageData\<close>.\<close>

definition render_main :: "Engine \<Rightarrow> bytes outcome option" where
  "render_main e = run_columns (render_column_main e) [0..<width e] (blank_frame e)"

section \<open>The render step of the second engine file\<close>

text \<open>
  \<open>floorColors[Math.floor(Math.random() * floorColors.length)]\<close>, split into its three
  bytes; an index outside the list gives \<open>undefined\<close>, hence three zero bytes.
\<close>

definition floorColors :: "32 word list" where
  "floorColors = [0x402010, 0x4a2a1a, 0x351a0e]"

definition ceilingColors :: "32 word list" where
  "ceilingColors = [0x201010, 0x251515, 0x1a0e0e]"

definition pick_colour :: "32 word list \<Rightarrow> real \<Rightarrow> 8 word \<times> 8 word \<times> 8 word" where
  "pick_colour cs u =
     (let c = (case js_index cs \<lfloor>u * real (length cs)\<rfloor> of None \<Rightarrow> 0 | Some c \<Rightarrow> c)
      in (red c, green c, blue c))"

definition render_column_doom ::
  "Engine \<Rightarrow> nat \<Rightarrow> bytes \<times> rng \<Rightarrow> (bytes \<times> rng) outcome option" where
  "render_column_doom e col st =
     (let (data, g) = st
      in case cast_ray e col of
           TypeError s \<Rightarrow> Some (TypeError (data, g))
         | Done s \<Rightarrow>
             (case get_texture e s of
                None \<Rightarrow> Some (TypeError (data, g))
              | Some tex \<Rightarrow>
                  (case draw_wall e col s tex data of
                     None \<Rightarrow> None
                   | Some data1 \<Rightarrow>
                       (let (u, g1) = math_random g; floorColor = pick_colour floorColors u;
                            (v, g2) = math_random g1; ceilingColor = pick_colour ceilingColors v
                        in map_option (\<lambda>data2. Done (data2, g2))
                             (draw_floor_ceiling e col s floorColor ceilingColor data1)))))"

text \<open>The pistol sprite that is drawn over the frame when weapon 0 is selected.\<close>

definition weapon_pixel :: "Engine \<Rightarrow> nat \<Rightarrow> nat \<Rightarrow> bytes \<Rightarrow> bytes" where
  "weapon_pixel e wy wx data =
     (let weaponX = (real (width e) - 200) / 2 + 50;
          weaponY = real (height e) - 200 + 20 + weaponBob e;
          screenX = weaponX + real wx;
          screenY = weaponY + real wy
      in if 0 \<le> screenX \<and> screenX < real (width e) \<and> 0 \<le> screenY \<and> screenY < real (height e)
         then (if wx > 80 \<and> wx < 120 \<and> wy > 150
               then put_rgba data (Fin ((screenY * real (width e) + screenX) * 4)) 0x44 0x44 0x44
               else data)
         else data)"

definition weapon_overlay :: "Engine \<Rightarrow> bytes \<Rightarrow> bytes" where
  "weapon_overlay e data =
     (if weapon (player e) = 0 then for_yx 0 200 0 200 (weapon_pixel e) data else data)"

text \<open>
  \<open>render\<close> of the second file: the buffer handed to \<open>putImageData\<close>, and the random
  stream that is left for the next call of \<open>Math.random\<close>.
\<close>

definition render_doom :: "Engine \<Rightarrow> rng \<Rightarrow> (bytes \<times> rng) outcome option" where
  "render_doom e g =
     (case run_columns (render_column_doom e) [0..<width e] (blank_frame e, g) of
        None \<Rightarrow> None
      | Some (TypeError st) \<Rightarrow> Some (TypeError st)
      | Some (Done (data, g')) \<Rightarrow> Some (Done (weapon_overlay e data, g')))"

section \<open>Predicates of the statements and concrete inputs\<close>

text \<open>
  A pellet is at the cell of the point \<open>(a, b)\<close> when its coordinates are the floors of
  \<open>a / cellSize\<close> and \<open>b / cellSize\<close>.
\<close>

definition pellet_at_cell :: "MapData \<Rightarrow> jsnum \<Rightarrow> jsnum \<Rightarrow> Position \<Rightarrow> bool" where
  "pellet_at_cell md a b p =
     (Fin (pos_x p) = jfloor (jdiv a (Fin (cellSize md))) \<and>
      Fin (pos_y p) = jfloor (jdiv b (Fin (cellSize md))))"

text \<open>
  An instance: a map with cell size 20 and pellets at \<open>(1, 1)\<close>, \<open>(2, 1)\<close>, \<open>(1, 1)\<close>; the
  point \<open>(30, 25)\<close> lies in cell \<open>(1, 1)\<close>.
\<close>

definition pellet_map :: MapData where
  "pellet_map =
     \<lparr>walls = [], 
      pellets = [\<lparr>pos_x = 1, pos_y = 1\<rparr>, \<lparr>pos_x = 2, pos_y = 1\<rparr>, \<lparr>pos_x = 1, pos_y = 1\<rparr>],
      powerPellets = [], md_width = 30, md_height = 30, cellSize = 20\<rparr>"


text \<open>
  The grid has \<open>mapHeight\<close> rows of \<open>mapWidth\<close> cells each, and it is sealed when every
  cell of its first and last row and of its first and last column holds a wall code.
\<close>

definition grid_ok :: "Engine \<Rightarrow> bool" where
  "grid_ok e = (int (length (worldMap e)) = mapHeight e \<and>
               (\<forall>row \<in> set (worldMap e). int (length row) = mapWidth e))"

definition sealed :: "Engine \<Rightarrow> bool" where
  "sealed e = (\<forall>i \<in> {0..<nat (mapHeight e)}. \<forall>j \<in> {0..<nat (mapWidth e)}.
       (i = 0 \<or> int i = mapHeight e - 1 \<or> j = 0 \<or> int j = mapWidth e - 1) \<longrightarrow>
         0 < worldMap e ! i ! j)"

text \<open>A cell is strictly inside the grid when it is in the grid and not on its border.\<close>

definition inside :: "Engine \<Rightarrow> int \<Rightarrow> int \<Rightarrow> bool" where
  "inside e mx my = (1 \<le> mx \<and> mx \<le> mapWidth e - 2 \<and> 1 \<le> my \<and> my \<le> mapHeight e - 2)"

text \<open>
  The 3 x 3 grid of the end-to-end scenario, on the screen of the first engine file: the
  border holds wall 1, the centre is empty, the player stands at \<open>(1.5, 1.5)\<close> and faces
  \<open>(0, -1)\<close>. Column 512 of 1024 has \<open>cameraX = 0\<close>.
\<close>

definition grid3 :: Engine where
  "grid3 = \<lparr>width = 1024, height = 768,
     player = \<lparr>x = 1.5, y = 1.5, dirX = 0, dirY = - 1, planeX = 0.66, planeY = 0,
               health = 100, ammo = 50, weapon = 0\<rparr>,
     mapWidth = 3, mapHeight = 3,
     worldMap = [[1, 1, 1], [1, 0, 1], [1, 1, 1]],
     textures = [], weaponBob = 0\<rparr>"

text \<open>
  The displacement that a movement intent asks for, per axis, and the cells that hold 0.
\<close>

fun displacement :: "intent \<Rightarrow> Player \<Rightarrow> real \<times> real" where
  "displacement Forward p = (dirX p * moveSpeed, dirY p * moveSpeed)"
| "displacement Backward p = (- (dirX p * moveSpeed), - (dirY p * moveSpeed))"
| "displacement StrafeLeft p = (- (dirY p * moveSpeed), dirX p * moveSpeed)"
| "displacement StrafeRight p = (dirY p * moveSpeed, - (dirX p * moveSpeed))"

definition free_cell :: "int list list \<Rightarrow> int \<Rightarrow> int \<Rightarrow> bool" where
  "free_cell m i j = (cell_at m i j = Cell 0)"

text \<open>
  What the movement handler of the second file does with a displacement \<open>d = (dx, dy)\<close>,
  from player \<open>p\<close> to player \<open>q\<close>. The x axis is resolved first: the cell tested is the
  cell of the candidate position along x, in the player's row at column \<open>floor (x + dx)\<close>.
  Then the y axis: the cell tested is in row \<open>floor (y + dy)\<close>, at the column of the
  player after the x axis was resolved. Each coordinate advances by its displacement
  exactly when the cell tested for it holds 0; nothing else of the player changes.
\<close>

definition resolved_at_candidate ::
  "int list list \<Rightarrow> real \<times> real \<Rightarrow> Player \<Rightarrow> Player \<Rightarrow> bool" where
  "resolved_at_candidate m d p q =
     (x q = (if free_cell m \<lfloor>y p\<rfloor> \<lfloor>x p + fst d\<rfloor> then x p + fst d else x p) \<and>
      y q = (if free_cell m \<lfloor>y p + snd d\<rfloor> \<lfloor>x q\<rfloor> then y p + snd d else y p) \<and>
      q = p\<lparr>x := x q, y := y q\<rparr>)"

text \<open>
  What the movement handler of the first file does: the same, except that the cell
  tested for an axis lies twice the displacement ahead, at column \<open>floor (x + 2 * dx)\<close>
  and at row \<open>floor (y + 2 * dy)\<close>, while the coordinate advances by the displacement.
\<close>

definition resolved_two_ahead ::
  "int list list \<Rightarrow> real \<times> real \<Rightarrow> Player \<Rightarrow> Player \<Rightarrow> bool" where
  "resolved_two_ahead m d p q =
     (x q = (if free_cell m \<lfloor>y p\<rfloor> \<lfloor>x p + 2 * fst d\<rfloor> then x p + fst d else x p) \<and>
      y q = (if free_cell m \<lfloor>y p + 2 * snd d\<rfloor> \<lfloor>x q\<rfloor> then y p + snd d else y p) \<and>
      q = p\<lparr>x := x q, y := y q\<rparr>)"

text \<open>
  Sliding, judged on the cells that the handler tests: when the cell tested for one axis
  holds 0 and the cell tested for the other axis does not, the player advances along the
  open axis only.
\<close>

definition slides_at_candidate ::
  "int list list \<Rightarrow> real \<times> real \<Rightarrow> Player \<Rightarrow> Player \<Rightarrow> bool" where
  "slides_at_candidate m d p q =
     ((free_cell m \<lfloor>y p\<rfloor> \<lfloor>x p + fst d\<rfloor> \<and> \<not> free_cell m \<lfloor>y p + snd d\<rfloor> \<lfloor>x p + fst d\<rfloor>
         \<longrightarrow> q = p\<lparr>x := x p + fst d\<rparr>) \<and>
      (\<not> free_cell m \<lfloor>y p\<rfloor> \<lfloor>x p + fst d\<rfloor> \<and> free_cell m \<lfloor>y p + snd d\<rfloor> \<lfloor>x p\<rfloor>
         \<longrightarrow> q = p\<lparr>y := y p + snd d\<rparr>))"

definition slides_two_ahead ::
  "int list list \<Rightarrow> real \<times> real \<Rightarrow> Player \<Rightarrow> Player \<Rightarrow> bool" where
  "slides_two_ahead m d p q =
     ((free_cell m \<lfloor>y p\<rfloor> \<lfloor>x p + 2 * fst d\<rfloor>
        \<and> \<not> free_cell m \<lfloor>y p + 2 * snd d\<rfloor> \<lfloor>x p + fst d\<rfloor>
         \<longrightarrow> q = p\<lparr>x := x p + fst d\<rparr>) \<and>
      (\<not> free_cell m \<lfloor>y p\<rfloor> \<lfloor>x p + 2 * fst d\<rfloor>
        \<and> free_cell m \<lfloor>y p + 2 * snd d\<rfloor> \<lfloor>x p\<rfloor>
         \<longrightarrow> q = p\<lparr>y := y p + snd d\<rparr>))"

text \<open>
  A 4 x 4 grid with an empty 2 x 2 centre, and a player close to its right wall who
  looks along \<open>(0.6, 0.8)\<close>.
\<close>

definition grid4 :: "int list list" where
  "grid4 = [[1, 1, 1, 1], [1, 0, 0, 1], [1, 0, 0, 1], [1, 1, 1, 1]]"

definition player4 :: Player where
  "player4 = \<lparr>x = 2.95, y = 1.5, dirX = 0.6, dirY = 0.8, planeX = 0.528, planeY = - 0.396,
     health = 100, ammo = 50, weapon = 0\<rparr>"

text \<open>
  The contract of \<open>Math.random\<close>, a 32 x 32 grid, its border of walls (every cell of rows
  0 and 31 and of columns 0 and 31 holds wall code 1), and the cell \<open>(15, 15)\<close> of the
  player's start position \<open>(15.5, 15.5)\<close>.
\<close>

definition good_rng :: "rng \<Rightarrow> bool" where
  "good_rng g = (\<forall>n. 0 \<le> g n \<and> g n < 1)"

definition grid32 :: "int list list \<Rightarrow> bool" where
  "grid32 m = (length m = 32 \<and> (\<forall>row \<in> set m. length row = 32))"

definition border_walls :: "int list list \<Rightarrow> bool" where
  "border_walls m =
     (\<forall>i \<in> {0..<32}. \<forall>j \<in> {0..<32}. (i = 0 \<or> i = 31 \<or> j = 0 \<or> j = 31) \<longrightarrow> m ! i ! j = 1)"

definition start_cell :: "int list list \<Rightarrow> int" where
  "start_cell m = m ! 15 ! 15"

text \<open>
  A walled grid with an empty start cell, and a walled grid whose start cell holds 0 or
  a wall code up to \<open>k\<close>.
\<close>

definition walled_start_empty :: "int list list \<Rightarrow> bool" where
  "walled_start_empty m = (grid32 m \<and> border_walls m \<and> start_cell m = 0)"

definition walled_start_upto :: "int \<Rightarrow> int list list \<Rightarrow> bool" where
  "walled_start_upto k m =
     (grid32 m \<and> border_walls m \<and> 0 \<le> start_cell m \<and> start_cell m \<le> k)"

text \<open>
  The rows \<open>a, a + 1, ...\<close> that a pixel loop visits, and the numbers that are finite
  or NaN (the drawing limits are of that kind).
\<close>

definition rows_from :: "real \<Rightarrow> nat \<Rightarrow> jsnum list" where
  "rows_from a n = map (\<lambda>k. Fin (a + real k)) [0..<n]"

definition fin_or_nan :: "jsnum \<Rightarrow> bool" where
  "fin_or_nan z = (case z of Fin _ \<Rightarrow> True | NaN \<Rightarrow> True | _ \<Rightarrow> False)"

text \<open>
  The first engine file right after construction, for a run of the random source in
  which every call answers 0, except the calls that draw the position of the first
  random pillar: they answer 0.45 and 0.48, which puts the pillar on \<open>map[15][14]\<close>, the
  cell the player faces from \<open>(15.5, 15.5)\<close>. (The rooms take the 169 calls before.)
\<close>

definition boxed_rng :: rng where
  "boxed_rng n = (if n = 169 then 45/100 else if n = 170 then 48/100 else 0)"

definition boxed_engine :: Engine where
  "boxed_engine =
     \<lparr>width = 1024, height = 768,
      player = \<lparr>x = 15.5, y = 15.5, dirX = - 1, dirY = 0, planeX = 0, planeY = 0.66,
                health = 100, ammo = 50, weapon = 0\<rparr>,
      mapWidth = 32, mapHeight = 32,
      worldMap = fst (final (generateLargeMap boxed_rng)),
      textures = main_textures, weaponBob = 0\<rparr>"

text \<open>
  A frame whose bottom row of the 1024 x 768 screen still holds the zeros of
  \<open>createImageData\<close>.
\<close>

definition bottom_blank :: "bytes \<Rightarrow> bool" where
  "bottom_blank d =
     (length d = 1024 * 768 * 4 \<and>
      (\<forall>j \<ge> 767 * 1024 * 4. j < 1024 * 768 * 4 \<longrightarrow> d ! j = 0))"

text \<open>
  Two engine states with the same inputs of the render step: the pose, the map grid and
  the texture set, and the screen and grid sizes (which are constants of the class).
  They may differ in everything else (health, ammunition, weapon, weapon bob).
\<close>

definition same_inputs :: "Engine \<Rightarrow> Engine \<Rightarrow> bool" where
  "same_inputs e1 e2 =
     (width e1 = width e2 \<and> height e1 = height e2 \<and>
      mapWidth e1 = mapWidth e2 \<and> mapHeight e1 = mapHeight e2 \<and>
      x (player e1) = x (player e2) \<and> y (player e1) = y (player e2) \<and>
      dirX (player e1) = dirX (player e2) \<and> dirY (player e1) = dirY (player e2) \<and>
      planeX (player e1) = planeX (player e2) \<and> planeY (player e1) = planeY (player e2) \<and>
      worldMap e1 = worldMap e2 \<and> textures e1 = textures e2)"

text \<open>The frame of a render step of the second file, without the random stream it leaves.\<close>

definition frame_of :: "(bytes \<times> rng) outcome option \<Rightarrow> bytes outcome option" where
  "frame_of res = map_option (map_outcome fst) res"

text \<open>
  The second engine file right after construction, with the map that \<open>createDoomMap\<close>
  builds when every call of the random source answers 0, and a random source that
  answers 0 to its first 1920 calls (two per column of one frame) and 0.5 afterwards.
\<close>

definition doom_engine0 :: Engine where
  "doom_engine0 =
     \<lparr>width = 960, height = 720,
      player = \<lparr>x = 15.5, y = 15.5, dirX = - 1, dirY = 0, planeX = 0, planeY = 0.66,
                health = 100, ammo = 50, weapon = 0\<rparr>,
      mapWidth = 32, mapHeight = 32,
      worldMap = fst (final (createDoomMap (\<lambda>_. 0))),
      textures = doom_textures, weaponBob = 0\<rparr>"

text \<open>
  Two random sources select the same colours during one render step of the second file:
  draw by draw, for the \<open>2 * width\<close> draws of the frame, they give the same index
  \<open>Math.floor(Math.random() * 3)\<close> into the three floor colours or the three ceiling
  colours.
\<close>

definition same_colour_draws :: "Engine \<Rightarrow> rng \<Rightarrow> rng \<Rightarrow> bool" where
  "same_colour_draws e g1 g2 = (\<forall>n < 2 * width e. \<lfloor>g1 n * 3\<rfloor> = \<lfloor>g2 n * 3\<rfloor>)"

definition flicker_rng :: rng where
  "flicker_rng n = (if n < 1920 then 0 else 1/2)"

section \<open>Properties of the pose updates\<close>

lemma rot_alg:
  fixes a b u v c s :: real
  assumes "s * s + c * c = 1"
  shows "(a * c - b * s) * (u * c - v * s) + (a * s + b * c) * (u * s + v * c) = a * u + b * v"
proof -
  have "(a * c - b * s) * (u * c - v * s) + (a * s + b * c) * (u * s + v * c)
        = (a * u + b * v) * (s * s + c * c)"
    by (simp add: algebra_simps)
  then show ?thesis using assms by simp
qed

lemma sin_cos_one: "sin (t::real) * sin t + cos t * cos t = 1"
  using sin_cos_squared_add[of t] by (simp add: power2_eq_square)

lemma rotate_left_dot:
  "dirX (rotate_left p) * planeX (rotate_left p) + dirY (rotate_left p) * planeY (rotate_left p)
   = dirX p * planeX p + dirY p * planeY p"
  unfolding rotate_left_def Let_def
  using rot_alg[OF sin_cos_one[of "- rotSpeed"], of "dirX p" "dirY p" "planeX p" "planeY p"]
  by simp

lemma rotate_right_dot:
  "dirX (rotate_right p) * planeX (rotate_right p) + dirY (rotate_right p) * planeY (rotate_right p)
   = dirX p * planeX p + dirY p * planeY p"
  unfolding rotate_right_def Let_def
  using rot_alg[OF sin_cos_one[of rotSpeed], of "dirX p" "dirY p" "planeX p" "planeY p"]
  by simp

lemma rotate_left_plane:
  "(planeX (rotate_left p))\<^sup>2 + (planeY (rotate_left p))\<^sup>2 = (planeX p)\<^sup>2 + (planeY p)\<^sup>2"
  unfolding rotate_left_def Let_def power2_eq_square
  using rot_alg[OF sin_cos_one[of "- rotSpeed"], of "planeX p" "planeY p" "planeX p" "planeY p"]
  by simp

lemma rotate_right_plane:
  "(planeX (rotate_right p))\<^sup>2 + (planeY (rotate_right p))\<^sup>2 = (planeX p)\<^sup>2 + (planeY p)\<^sup>2"
  unfolding rotate_right_def Let_def power2_eq_square
  using rot_alg[OF sin_cos_one[of rotSpeed], of "planeX p" "planeY p" "planeX p" "planeY p"]
  by simp

text \<open>
  Claim C6. One rotation step, to the left or to the right, leaves the dot product of
  the direction vector and the camera-plane vector unchanged (so a dot product of 0
  stays 0), and leaves the length of the camera-plane vector unchanged. The statement
  is about exact real arithmetic, for every pose.
\<close>

theorem rotation_preserves_dot_and_plane_length:
  "dirX (rotate_left p) * planeX (rotate_left p) + dirY (rotate_left p) * planeY (rotate_left p)
     = dirX p * planeX p + dirY p * planeY p
   \<and> sqrt ((planeX (rotate_left p))\<^sup>2 + (planeY (rotate_left p))\<^sup>2)
     = sqrt ((planeX p)\<^sup>2 + (planeY p)\<^sup>2)
   \<and> dirX (rotate_right p) * planeX (rotate_right p) + dirY (rotate_right p) * planeY (rotate_right p)
     = dirX p * planeX p + dirY p * planeY p
   \<and> sqrt ((planeX (rotate_right p))\<^sup>2 + (planeY (rotate_right p))\<^sup>2)
     = sqrt ((planeX p)\<^sup>2 + (planeY p)\<^sup>2)"
  by (simp only: rotate_left_dot rotate_right_dot rotate_left_plane rotate_right_plane)

section \<open>Properties of the pellet list\<close>

lemma findIndex_range: "- 1 \<le> findIndex P xs \<and> findIndex P xs < int (length xs)"
  by (induction xs) (auto simp: Let_def)

lemma findIndex_none: "(findIndex P xs = - 1) = (\<forall>a\<in>set xs. \<not> P a)"
proof (induction xs)
  case Nil
  then show ?case by simp
next
  case (Cons a xs)
  have "- 1 \<le> findIndex P xs" using findIndex_range[of P xs] by simp
  then have "findIndex P xs + 1 \<noteq> - 1" by linarith
  with Cons show ?case by (auto simp: Let_def)
qed

lemma findIndex_first:
  "findIndex P xs \<noteq> - 1 \<Longrightarrow>
   \<exists>pre q post. xs = pre @ q # post \<and> P q \<and> (\<forall>a\<in>set pre. \<not> P a)
     \<and> findIndex P xs = int (length pre)"
proof (induction xs)
  case Nil
  then show ?case by simp
next
  case (Cons a xs)
  show ?case
  proof (cases "P a")
    case True
    then show ?thesis by (intro exI[of _ "[]"]) auto
  next
    case False
    with Cons.prems have ne: "findIndex P xs \<noteq> - 1"
      by (auto simp: Let_def split: if_splits)
    from Cons.IH[OF ne] obtain pre q post where
      h: "xs = pre @ q # post" "P q" "\<forall>a\<in>set pre. \<not> P a" "findIndex P xs = int (length pre)"
      by blast
    show ?thesis
      apply (rule exI[of _ "a # pre"], rule exI[of _ q], rule exI[of _ post])
      using h False ne by (auto simp: Let_def)
  qed
qed

lemma splice_one: "splice (pre @ q # post) (int (length pre)) 1 = pre @ post"
  by (simp add: splice_def Let_def nat_add_distrib)

text \<open>
  Claim C10. \<open>removePellet\<close>, called with the point \<open>(a, b)\<close>, returns true exactly
  when the pellet list holds a pellet at the cell of that point. When it returns true,
  the list is split around its first such pellet, and exactly that pellet is gone: the pellets before and after it stay, in
  their order, and no other field changes. When it returns false, the map data is
  unchanged.
\<close>

theorem removePellet_removes_first_match:
  "(snd (removePellet md a b) \<longleftrightarrow> (\<exists>p \<in> set (pellets md). pellet_at_cell md a b p))
   \<and> (snd (removePellet md a b) \<longrightarrow>
        (\<exists>pre q post. pellets md = pre @ q # post \<and> pellet_at_cell md a b q
           \<and> (\<forall>p \<in> set pre. \<not> pellet_at_cell md a b p)
           \<and> fst (removePellet md a b) = md\<lparr>pellets := pre @ post\<rparr>))
   \<and> (\<not> snd (removePellet md a b) \<longrightarrow> fst (removePellet md a b) = md)"
proof -
  define P where "P = (\<lambda>p::Position. jeq (Fin (pos_x p)) (jfloor (jdiv a (Fin (cellSize md))))
                          \<and> jeq (Fin (pos_y p)) (jfloor (jdiv b (Fin (cellSize md)))))"
  have P_eq: "P p = pellet_at_cell md a b p" for p
    by (auto simp: P_def pellet_at_cell_def jeq_def)
  have rp: "removePellet md a b =
      (if findIndex P (pellets md) \<noteq> - 1
       then (md\<lparr>pellets := splice (pellets md) (findIndex P (pellets md)) 1\<rparr>, True)
       else (md, False))"
    by (simp add: removePellet_def Let_def P_def)
  show ?thesis
  proof (cases "findIndex P (pellets md) = - 1")
    case True
    then have "\<forall>p \<in> set (pellets md). \<not> pellet_at_cell md a b p"
      by (simp add: findIndex_none P_eq)
    with True show ?thesis by (simp add: rp)
  next
    case False
    from findIndex_first[OF False] obtain pre q post where
      h: "pellets md = pre @ q # post" "P q" "\<forall>a\<in>set pre. \<not> P a"
         "findIndex P (pellets md) = int (length pre)"
      by blast
    have sp: "splice (pellets md) (findIndex P (pellets md)) 1 = pre @ post"
      using h(1) h(4) splice_one[of pre q post] by simp
    have ex: "\<exists>p \<in> set (pellets md). pellet_at_cell md a b p"
      using h(1) h(2) by (auto simp: P_eq)
    have "\<exists>pre q post. pellets md = pre @ q # post \<and> pellet_at_cell md a b q
           \<and> (\<forall>p \<in> set pre. \<not> pellet_at_cell md a b p)
           \<and> md\<lparr>pellets := splice (pellets md) (findIndex P (pellets md)) 1\<rparr>
               = md\<lparr>pellets := pre @ post\<rparr>"
      using h sp by (auto simp: P_eq)
    with False ex show ?thesis by (simp add: rp)
  qed
qed

theorem removePellet_removes_first_match_witness:
  "snd (removePellet pellet_map (Fin 30) (Fin 25))
   \<and> pellets (fst (removePellet pellet_map (Fin 30) (Fin 25)))
       = [\<lparr>pos_x = 2, pos_y = 1\<rparr>, \<lparr>pos_x = 1, pos_y = 1\<rparr>]
   \<and> (\<exists>p \<in> set (pellets pellet_map). pellet_at_cell pellet_map (Fin 30) (Fin 25) p)"
  using removePellet_removes_first_match[of pellet_map "Fin 30" "Fin 25"]
  by (simp add: removePellet_def pellet_map_def Let_def jeq_def splice_def pellet_at_cell_def)


section \<open>Properties of the DDA walk\<close>

lemma dda_room_in_grid:
  "in_grid e (mapX s) (mapY s) \<Longrightarrow>
   2 \<le> dda_room e r s \<and> int (dda_room e r s) \<le> mapWidth e + mapHeight e"
  by (auto simp: in_grid_def dda_room_def stepX_def stepY_def)

lemma steps_advance: "steps (dda_advance r s) = Suc (steps s)"
  by (simp add: dda_advance_def)

lemma dda_steps_bound:
  "in_grid e (mapX s) (mapY s) \<Longrightarrow> steps (final (dda e r s)) \<le> steps s + dda_room e r s"
proof (induction e r s rule: dda.induct)
  case (1 e r s)
  let ?s' = "dda_advance r s"
  have room2: "2 \<le> dda_room e r s" using dda_room_in_grid[OF "1.prems"] by simp
  show ?case
  proof (cases "in_grid e (mapX ?s') (mapY ?s')")
    case False
    then show ?thesis using room2 by (subst dda.simps) (simp add: steps_advance)
  next
    case True
    have dec: "dda_room e r ?s' < dda_room e r s" by (rule dda_room_decreases[OF True])
    show ?thesis
    proof (cases "cell_at (worldMap e) (mapY ?s') (mapX ?s')")
      case NoRow
      then show ?thesis using True room2 by (subst dda.simps) (simp add: steps_advance)
    next
      case NoCell
      from "1.IH"(1)[OF True NoCell True] dec
      show ?thesis using True NoCell by (subst dda.simps) (simp add: steps_advance)
    next
      case (Cell v)
      show ?thesis
      proof (cases "v > 0")
        case True
        then show ?thesis using \<open>in_grid e (mapX ?s') (mapY ?s')\<close> Cell room2
          by (subst dda.simps) (simp add: steps_advance)
      next
        case False
        from "1.IH"(2)[OF True Cell False True] dec
        show ?thesis using True Cell False by (subst dda.simps) (simp add: steps_advance)
      qed
    qed
  qed
qed

text \<open>
  Claim C3. The loop is the total function \<open>dda\<close>: its termination is proved with the
  measure \<open>dda_room\<close>, for every grid, start cell and ray. From a start cell in the grid
  it runs at most \<open>mapWidth + mapHeight\<close> iterations, whatever the ray direction is
  (a degenerate direction included) and whether it ends on a wall, outside the grid or
  in a TypeError on a missing row.
\<close>

theorem dda_terminates_within_width_plus_height:
  "in_grid e \<lfloor>x (player e)\<rfloor> \<lfloor>y (player e)\<rfloor> \<Longrightarrow>
   int (steps (final (cast_ray e col))) \<le> mapWidth e + mapHeight e"
proof -
  assume a: "in_grid e \<lfloor>x (player e)\<rfloor> \<lfloor>y (player e)\<rfloor>"
  let ?r = "make_ray e col"
  let ?s = "dda_init e ?r"
  have m: "mapX ?s = \<lfloor>x (player e)\<rfloor>" "mapY ?s = \<lfloor>y (player e)\<rfloor>" "steps ?s = 0"
    by (simp_all add: dda_init_def Let_def)
  have g: "in_grid e (mapX ?s) (mapY ?s)" using a m by simp
  from dda_steps_bound[OF g, of ?r] dda_room_in_grid[OF g, of ?r] m(3)
  show ?thesis by (simp add: cast_ray_def)
qed

theorem dda_terminates_within_width_plus_height_witness:
  "in_grid grid3 \<lfloor>x (player grid3)\<rfloor> \<lfloor>y (player grid3)\<rfloor>
   \<and> int (steps (final (cast_ray grid3 0))) \<le> 6"
proof -
  have g: "in_grid grid3 \<lfloor>x (player grid3)\<rfloor> \<lfloor>y (player grid3)\<rfloor>"
    by (simp add: in_grid_def grid3_def)
  from dda_terminates_within_width_plus_height[OF g, of 0] g
  show ?thesis by (simp add: grid3_def)
qed

lemma cell_at_grid_ok:
  assumes "grid_ok e" "in_grid e j i"
  shows "cell_at (worldMap e) i j = Cell (worldMap e ! nat i ! nat j)"
proof -
  from assms have i: "0 \<le> i" "i < int (length (worldMap e))"
    by (auto simp: grid_ok_def in_grid_def)
  then have "worldMap e ! nat i \<in> set (worldMap e)" by (simp add: nat_less_iff)
  with assms have "int (length (worldMap e ! nat i)) = mapWidth e" by (simp add: grid_ok_def)
  with assms i show ?thesis by (simp add: cell_at_def js_index_def in_grid_def)
qed

lemma advance_inside:
  "inside e (mapX s) (mapY s) \<Longrightarrow> in_grid e (mapX (dda_advance r s)) (mapY (dda_advance r s))"
  by (auto simp: inside_def in_grid_def dda_advance_def stepX_def stepY_def)

lemma sealed_zero_inside:
  assumes "sealed e" "in_grid e j i" "\<not> 0 < worldMap e ! nat i ! nat j"
  shows "inside e j i"
proof -
  from assms(2) have ij: "nat i \<in> {0..<nat (mapHeight e)}" "nat j \<in> {0..<nat (mapWidth e)}"
    by (auto simp: in_grid_def)
  from assms(1) ij assms(3)
  have "\<not> (nat i = 0 \<or> int (nat i) = mapHeight e - 1 \<or> nat j = 0 \<or> int (nat j) = mapWidth e - 1)"
    unfolding sealed_def by blast
  with assms(2) show ?thesis by (auto simp: inside_def in_grid_def)
qed

lemma dda_hits_inside_sealed:
  "grid_ok e \<Longrightarrow> sealed e \<Longrightarrow> inside e (mapX s) (mapY s) \<Longrightarrow>
   \<exists>s' v. dda e r s = Done s' \<and> in_grid e (mapX s') (mapY s')
          \<and> cell_at (worldMap e) (mapY s') (mapX s') = Cell v \<and> 0 < v"
proof (induction e r s rule: dda.induct)
  case (1 e r s)
  let ?s' = "dda_advance r s"
  have g: "in_grid e (mapX ?s') (mapY ?s')" by (rule advance_inside[OF "1.prems"(3)])
  let ?v = "worldMap e ! nat (mapY ?s') ! nat (mapX ?s')"
  have c: "cell_at (worldMap e) (mapY ?s') (mapX ?s') = Cell ?v"
    by (rule cell_at_grid_ok[OF "1.prems"(1) g])
  show ?case
  proof (cases "0 < ?v")
    case True
    with g c show ?thesis by (subst dda.simps) simp
  next
    case False
    have ins: "inside e (mapX ?s') (mapY ?s')"
      by (rule sealed_zero_inside[OF "1.prems"(2) g False])
    from "1.IH"(2)[OF g c False "1.prems"(1) "1.prems"(2) ins]
    show ?thesis using g c False by (subst dda.simps) simp
  qed
qed

text \<open>
  Claim C2. On a sealed grid, with the player's cell strictly inside it, the ray of every
  screen column ends (without a TypeError) on a cell that is in the grid and holds a wall
  code. The texture lookup \<open>worldMap[mapY][mapX]\<close> that follows is the read
  \<open>cell_at (worldMap e) (mapY s) (mapX s)\<close>, and it finds a cell: it is not out of
  bounds.
\<close>

theorem ray_ends_on_wall_cell_in_grid:
  assumes "grid_ok e" and "sealed e"
    and "inside e \<lfloor>x (player e)\<rfloor> \<lfloor>y (player e)\<rfloor>"
  shows "\<exists>s v. cast_ray e col = Done s \<and> in_grid e (mapX s) (mapY s)
          \<and> cell_at (worldMap e) (mapY s) (mapX s) = Cell v \<and> 0 < v"
proof -
  have "inside e (mapX (dda_init e (make_ray e col))) (mapY (dda_init e (make_ray e col)))"
    using assms(3) by (simp add: dda_init_def Let_def)
  from dda_hits_inside_sealed[OF assms(1) assms(2) this]
  show ?thesis by (simp add: cast_ray_def)
qed

lemma grid3_sealed: "sealed grid3"
  by (auto simp: sealed_def grid3_def less_Suc_eq numeral_3_eq_3 nth_Cons')

lemma grid3_ok: "grid_ok grid3"
  by (simp add: grid_ok_def grid3_def)

lemma grid3_inside: "inside grid3 \<lfloor>x (player grid3)\<rfloor> \<lfloor>y (player grid3)\<rfloor>"
  by (simp add: inside_def grid3_def)

theorem ray_ends_on_wall_cell_in_grid_witness:
  "grid_ok grid3 \<and> sealed grid3 \<and> inside grid3 \<lfloor>x (player grid3)\<rfloor> \<lfloor>y (player grid3)\<rfloor>
   \<and> (\<exists>s v. cast_ray grid3 7 = Done s \<and> in_grid grid3 (mapX s) (mapY s)
          \<and> cell_at (worldMap grid3) (mapY s) (mapX s) = Cell v \<and> 0 < v)"
  using ray_ends_on_wall_cell_in_grid[OF grid3_ok grid3_sealed grid3_inside, of 7]
    grid3_ok grid3_sealed grid3_inside
  by simp

lemma grid3_ray:
  "make_ray grid3 512 = \<lparr>rayDirX = 0, rayDirY = - 1, deltaDistX = PInf, deltaDistY = Fin 1\<rparr>"
  by (simp add: make_ray_def grid3_def Let_def)

lemma grid3_init:
  "dda_init grid3 (make_ray grid3 512) =
     \<lparr>sideDistX = PInf, sideDistY = Fin (1/2), mapX = 1, mapY = 1, side = 0, steps = 0\<rparr>"
  unfolding grid3_ray by (simp add: dda_init_def grid3_def Let_def inf_times_def)

text \<open>
  Claim C5. On the 3 x 3 grid, the ray of the column with \<open>cameraX = 0\<close> (its direction is
  \<open>(0, -1)\<close>, its x side distance is infinite) ends on map cell \<open>(1, 0)\<close> with \<open>side = 1\<close>,
  and its perpendicular wall distance is \<open>0.5\<close>.
\<close>

theorem grid3_straight_ray_hits_cell_1_0:
  "rayDirX (make_ray grid3 512) = 0 \<and> rayDirY (make_ray grid3 512) = - 1
   \<and> (\<exists>s. cast_ray grid3 512 = Done s \<and> mapX s = 1 \<and> mapY s = 0 \<and> side s = 1
          \<and> perpWallDist grid3 (make_ray grid3 512) s = Fin 0.5)"
  unfolding cast_ray_def grid3_init unfolding grid3_ray
  apply (subst dda.simps)
  apply (simp add: dda_advance_def stepX_def stepY_def in_grid_def grid3_def cell_at_def
      js_index_def perpWallDist_def)
  done

section \<open>Properties of movement\<close>

lemma floor_between:
  fixes a d :: real
  assumes "\<bar>d\<bar> \<le> 1/2"
  shows "\<lfloor>a + d\<rfloor> = \<lfloor>a\<rfloor> \<or> \<lfloor>a + d\<rfloor> = \<lfloor>a + 2 * d\<rfloor>"
proof -
  have 1: "of_int \<lfloor>a\<rfloor> \<le> a" "a < of_int \<lfloor>a\<rfloor> + 1" by linarith+
  have 2: "of_int \<lfloor>a + d\<rfloor> \<le> a + d" "a + d < of_int \<lfloor>a + d\<rfloor> + 1" by linarith+
  have 3: "of_int \<lfloor>a + 2 * d\<rfloor> \<le> a + 2 * d" "a + 2 * d < of_int \<lfloor>a + 2 * d\<rfloor> + 1" by linarith+
  show ?thesis
  proof (cases "0 \<le> d")
    case True
    have "\<lfloor>a\<rfloor> \<le> \<lfloor>a + d\<rfloor>" using True by (intro floor_mono) simp
    moreover have "\<lfloor>a + d\<rfloor> \<le> \<lfloor>a + 2 * d\<rfloor>" using True by (intro floor_mono) simp
    moreover have "\<lfloor>a + 2 * d\<rfloor> \<le> \<lfloor>a\<rfloor> + 1"
    proof -
      have "a + 2 * d < of_int \<lfloor>a\<rfloor> + 2" using 1 assms True by linarith
      then have "a + 2 * d < of_int (\<lfloor>a\<rfloor> + 2)" by simp
      then have "\<lfloor>a + 2 * d\<rfloor> < \<lfloor>a\<rfloor> + 2" by (simp only: floor_less_iff)
      then show ?thesis by simp
    qed
    ultimately show ?thesis by linarith
  next
    case False
    have "\<lfloor>a + d\<rfloor> \<le> \<lfloor>a\<rfloor>" using False by (intro floor_mono) simp
    moreover have "\<lfloor>a + 2 * d\<rfloor> \<le> \<lfloor>a + d\<rfloor>" using False by (intro floor_mono) simp
    moreover have "\<lfloor>a\<rfloor> - 1 \<le> \<lfloor>a + 2 * d\<rfloor>"
    proof -
      have "of_int \<lfloor>a\<rfloor> - 1 \<le> a + 2 * d" using 1 assms False by linarith
      then have "of_int (\<lfloor>a\<rfloor> - 1) \<le> a + 2 * d" by simp
      then show ?thesis by (simp only: le_floor_iff)
    qed
    ultimately show ?thesis by linarith
  qed
qed

lemma is_free_Some: "is_free m i j = Some b \<Longrightarrow> b = free_cell m i j"
  by (auto simp: is_free_def free_cell_def split: cellval.splits)

lemma is_free_None: "is_free m i j = None \<Longrightarrow> \<not> free_cell m i j"
  by (auto simp: is_free_def free_cell_def split: cellval.splits)

lemma is_free_row: "0 \<le> i \<Longrightarrow> i < int (length m) \<Longrightarrow> is_free m i j = Some (free_cell m i j)"
  by (auto simp: is_free_def free_cell_def cell_at_def js_index_def split: cellval.splits option.splits)

lemma two_axes:
  fixes p :: Player
  assumes row: "0 \<le> \<lfloor>y p\<rfloor>" "\<lfloor>y p\<rfloor> < int (length m)"
    and px: "px = x p + k * dx" and tx: "tx = x p + dx"
    and g: "\<And>v. g (p\<lparr>x := v\<rparr>) = y p + k * dy" "g p = y p + k * dy"
    and h: "\<And>v. h (p\<lparr>x := v\<rparr>) = y p + dy" "h p = y p + dy"
  defines "q \<equiv> final (and_then (try_x m px tx p) (\<lambda>r. try_y m (g r) (h r) r))"
  shows "x q = (if free_cell m \<lfloor>y p\<rfloor> \<lfloor>x p + k * dx\<rfloor> then x p + dx else x p) \<and>
         y q = (if free_cell m \<lfloor>y p + k * dy\<rfloor> \<lfloor>x q\<rfloor> then y p + dy else y p) \<and>
         q = p\<lparr>x := x q, y := y q\<rparr>"
proof -
  have fx: "is_free m \<lfloor>y p\<rfloor> \<lfloor>x p + k * dx\<rfloor> = Some (free_cell m \<lfloor>y p\<rfloor> \<lfloor>x p + k * dx\<rfloor>)"
    by (rule is_free_row[OF row])
  define p1 where "p1 = (if free_cell m \<lfloor>y p\<rfloor> \<lfloor>x p + k * dx\<rfloor> then p\<lparr>x := x p + dx\<rparr> else p)"
  have t1: "try_x m px tx p = Done p1"
    by (simp add: try_x_def fx p1_def px tx)
  have y1: "g p1 = y p + k * dy" "h p1 = y p + dy" by (simp_all add: p1_def g h)
  show ?thesis
  proof (cases "is_free m \<lfloor>y p + k * dy\<rfloor> \<lfloor>x p1\<rfloor>")
    case None
    then have "\<not> free_cell m \<lfloor>y p + k * dy\<rfloor> \<lfloor>x p1\<rfloor>" by (rule is_free_None)
    with None show ?thesis
      by (simp add: q_def t1 try_y_def y1) (simp add: p1_def)
  next
    case (Some b)
    then have "b = free_cell m \<lfloor>y p + k * dy\<rfloor> \<lfloor>x p1\<rfloor>" by (rule is_free_Some)
    with Some show ?thesis
      by (simp add: q_def t1 try_y_def y1) (simp add: p1_def)
  qed
qed

lemma move_main_resolved:
  assumes "0 \<le> \<lfloor>y p\<rfloor>" "\<lfloor>y p\<rfloor> < int (length m)"
  shows "resolved_two_ahead m (displacement i p) p (final (move_main m i p))"
proof (cases i)
  case Forward
  show ?thesis
    unfolding Forward resolved_two_ahead_def move_main.simps displacement.simps fst_conv snd_conv
    by (rule two_axes[OF assms]) simp_all
next
  case Backward
  show ?thesis
    unfolding Backward resolved_two_ahead_def move_main.simps displacement.simps fst_conv snd_conv
    by (rule two_axes[OF assms]) simp_all
next
  case StrafeLeft
  show ?thesis
    unfolding StrafeLeft resolved_two_ahead_def move_main.simps displacement.simps Let_def
      fst_conv snd_conv
    by (rule two_axes[OF assms]) simp_all
next
  case StrafeRight
  show ?thesis
    unfolding StrafeRight resolved_two_ahead_def move_main.simps displacement.simps Let_def
      fst_conv snd_conv
    by (rule two_axes[OF assms]) simp_all
qed

lemma move_doom_resolved:
  assumes "0 \<le> \<lfloor>y p\<rfloor>" "\<lfloor>y p\<rfloor> < int (length m)"
  shows "resolved_at_candidate m (displacement i p) p (final (move_doom m i p))"
proof -
  have one: "resolved_at_candidate m d p q =
     (x q = (if free_cell m \<lfloor>y p\<rfloor> \<lfloor>x p + 1 * fst d\<rfloor> then x p + fst d else x p) \<and>
      y q = (if free_cell m \<lfloor>y p + 1 * snd d\<rfloor> \<lfloor>x q\<rfloor> then y p + snd d else y p) \<and>
      q = p\<lparr>x := x q, y := y q\<rparr>)" for d q
    by (simp add: resolved_at_candidate_def)
  show ?thesis
  proof (cases i)
    case Forward
    show ?thesis
      unfolding Forward one move_doom.simps displacement.simps Let_def fst_conv snd_conv
      by (rule two_axes[OF assms]) simp_all
  next
    case Backward
    show ?thesis
      unfolding Backward one move_doom.simps displacement.simps Let_def fst_conv snd_conv
      by (rule two_axes[OF assms]) simp_all
  next
    case StrafeLeft
    show ?thesis
      unfolding StrafeLeft one move_doom.simps displacement.simps Let_def fst_conv snd_conv
      by (rule two_axes[OF assms]) simp_all
  next
    case StrafeRight
    show ?thesis
      unfolding StrafeRight one move_doom.simps displacement.simps Let_def fst_conv snd_conv
      by (rule two_axes[OF assms]) simp_all
  qed
qed

lemma candidate_slides: "resolved_at_candidate m d p q \<Longrightarrow> slides_at_candidate m d p q"
  unfolding resolved_at_candidate_def slides_at_candidate_def
  by (cases p, cases q) auto

lemma two_ahead_slides: "resolved_two_ahead m d p q \<Longrightarrow> slides_two_ahead m d p q"
  unfolding resolved_two_ahead_def slides_two_ahead_def
  by (cases p, cases q) auto

lemma p4_row: "0 \<le> \<lfloor>y player4\<rfloor> \<and> \<lfloor>y player4\<rfloor> < int (length grid4)"
  by (simp add: player4_def grid4_def)

lemma p4_main: "move_main grid4 Forward player4 = Done (player4\<lparr>y := 1.54\<rparr>)"
  by (simp add: player4_def grid4_def try_x_def try_y_def is_free_def cell_at_def js_index_def moveSpeed_def)

lemma p4_doom: "move_doom grid4 Forward player4 = Done (player4\<lparr>x := 2.98, y := 1.54\<rparr>)"
  by (simp add: player4_def grid4_def try_x_def try_y_def is_free_def cell_at_def js_index_def
      moveSpeed_def Let_def)

lemma p4_free: "free_cell grid4 \<lfloor>y player4\<rfloor> \<lfloor>x player4\<rfloor>"
  by (simp add: player4_def grid4_def free_cell_def cell_at_def js_index_def)

text \<open>
  Claim C7, as amended. For each of the four movement intents, in both engine files, and
  for a player whose row is a row of the grid, the displacement is resolved per axis, the
  x axis first. In the second file the x coordinate advances exactly when the cell of the
  candidate position along x holds 0, and then the y coordinate advances exactly when the
  cell of the candidate position along y, taken in the column the player has after the x
  axis was resolved, holds 0 (\<open>resolved_at_candidate\<close>). In the first file the cell
  tested for an axis is not the cell of the candidate position: it lies twice the
  displacement ahead, and a coordinate advances exactly when that cell holds 0
  (\<open>resolved_two_ahead\<close>). In both files a player blocked along one axis and open along
  the other, judged on the cells tested, advances along the open axis only. \<open>final\<close> is
  the player the handler leaves, also when the second test raises a TypeError on a
  missing row.
\<close>

theorem movement_resolved_on_tested_cells:
  assumes "0 \<le> \<lfloor>y p\<rfloor>" and "\<lfloor>y p\<rfloor> < int (length m)"
  shows "resolved_at_candidate m (displacement i p) p (final (move_doom m i p))
       \<and> slides_at_candidate m (displacement i p) p (final (move_doom m i p))
       \<and> resolved_two_ahead m (displacement i p) p (final (move_main m i p))
       \<and> slides_two_ahead m (displacement i p) p (final (move_main m i p))"
  using move_main_resolved[OF assms] move_doom_resolved[OF assms]
    candidate_slides two_ahead_slides
  by blast

text \<open>
  The statement at the player of the 4 x 4 grid who moves forward close to the right
  wall: the first file lets only y advance, the second file lets both coordinates advance.
\<close>

theorem movement_resolved_on_tested_cells_witness:
  "0 \<le> \<lfloor>y player4\<rfloor> \<and> \<lfloor>y player4\<rfloor> < int (length grid4)
   \<and> final (move_doom grid4 Forward player4) = player4\<lparr>x := 2.98, y := 1.54\<rparr>
   \<and> resolved_at_candidate grid4 (displacement Forward player4) player4
        (player4\<lparr>x := 2.98, y := 1.54\<rparr>)
   \<and> slides_at_candidate grid4 (displacement Forward player4) player4
        (player4\<lparr>x := 2.98, y := 1.54\<rparr>)
   \<and> final (move_main grid4 Forward player4) = player4\<lparr>y := 1.54\<rparr>
   \<and> resolved_two_ahead grid4 (displacement Forward player4) player4 (player4\<lparr>y := 1.54\<rparr>)
   \<and> slides_two_ahead grid4 (displacement Forward player4) player4 (player4\<lparr>y := 1.54\<rparr>)"
  using movement_resolved_on_tested_cells[of player4 grid4 Forward] p4_row p4_main p4_doom
  by simp

text \<open>
  Claim C7 as stated fails on the first file. The player at \<open>(2.95, 1.5)\<close> of the 4 x 4
  grid moves forward along \<open>(0.6, 0.8)\<close>: the x displacement is 0.03 and the cell of the
  candidate position \<open>(2.98, 1.5)\<close> holds 0, yet the x coordinate does not advance,
  because the handler tests the cell of \<open>(3.01, 1.5)\<close>, which is a wall. The second file
  advances x on the same input.
\<close>

theorem first_file_blocks_free_candidate_cell:
  "fst (displacement Forward player4) = 3/100
   \<and> free_cell grid4 \<lfloor>y player4\<rfloor> \<lfloor>x player4 + fst (displacement Forward player4)\<rfloor>
   \<and> x (final (move_main grid4 Forward player4)) = x player4
   \<and> \<not> resolved_at_candidate grid4 (displacement Forward player4) player4
          (final (move_main grid4 Forward player4))
   \<and> x (final (move_doom grid4 Forward player4)) = x player4 + fst (displacement Forward player4)"
proof -
  have a: "final (move_main grid4 Forward player4) = player4\<lparr>y := 1.54\<rparr>"
    unfolding p4_main by simp
  have b: "final (move_doom grid4 Forward player4) = player4\<lparr>x := 2.98, y := 1.54\<rparr>"
    unfolding p4_doom by simp
  have dx: "fst (displacement Forward player4) = 3/100"
    by (simp add: player4_def moveSpeed_def)
  have fc: "free_cell grid4 \<lfloor>y player4\<rfloor> \<lfloor>x player4 + 3/100\<rfloor>"
    by (simp add: player4_def grid4_def free_cell_def cell_at_def js_index_def)
  have xd: "x player4 + 3/100 = 2.98" by (simp add: player4_def)
  have nr: "\<not> resolved_at_candidate grid4 (displacement Forward player4) player4
              (player4\<lparr>y := 1.54\<rparr>)"
    unfolding resolved_at_candidate_def dx using fc by simp
  have c2: "free_cell grid4 \<lfloor>y player4\<rfloor> \<lfloor>x player4 + fst (displacement Forward player4)\<rfloor>"
    unfolding dx by (rule fc)
  have c3: "x (final (move_main grid4 Forward player4)) = x player4"
    unfolding a by simp
  have c4: "\<not> resolved_at_candidate grid4 (displacement Forward player4) player4
              (final (move_main grid4 Forward player4))"
    unfolding a by (rule nr)
  have c5: "x (final (move_doom grid4 Forward player4))
              = x player4 + fst (displacement Forward player4)"
    unfolding b dx xd by simp
  show ?thesis by (intro conjI dx c2 c3 c4 c5)
qed

lemma free_cell_row: "free_cell m i j \<Longrightarrow> 0 \<le> i \<and> i < int (length m)"
  by (auto simp: free_cell_def cell_at_def js_index_def split: option.splits if_splits)

lemma candidate_keeps_free:
  assumes r: "resolved_at_candidate m d p q"
    and f: "free_cell m \<lfloor>y p\<rfloor> \<lfloor>x p\<rfloor>"
  shows "free_cell m \<lfloor>y q\<rfloor> \<lfloor>x q\<rfloor>"
proof -
  from r have xq: "x q = (if free_cell m \<lfloor>y p\<rfloor> \<lfloor>x p + fst d\<rfloor> then x p + fst d else x p)"
    and yq: "y q = (if free_cell m \<lfloor>y p + snd d\<rfloor> \<lfloor>x q\<rfloor> then y p + snd d else y p)"
    unfolding resolved_at_candidate_def by blast+
  have fx: "free_cell m \<lfloor>y p\<rfloor> \<lfloor>x q\<rfloor>"
    using xq f by (cases "free_cell m \<lfloor>y p\<rfloor> \<lfloor>x p + fst d\<rfloor>") simp_all
  show ?thesis
    using yq fx by (cases "free_cell m \<lfloor>y p + snd d\<rfloor> \<lfloor>x q\<rfloor>") simp_all
qed

lemma two_ahead_keeps_free:
  assumes r: "resolved_two_ahead m d p q"
    and f: "free_cell m \<lfloor>y p\<rfloor> \<lfloor>x p\<rfloor>"
    and small: "\<bar>fst d\<bar> \<le> 1/2" "\<bar>snd d\<bar> \<le> 1/2"
  shows "free_cell m \<lfloor>y q\<rfloor> \<lfloor>x q\<rfloor>"
proof -
  from r have xq: "x q = (if free_cell m \<lfloor>y p\<rfloor> \<lfloor>x p + 2 * fst d\<rfloor> then x p + fst d else x p)"
    and yq: "y q = (if free_cell m \<lfloor>y p + 2 * snd d\<rfloor> \<lfloor>x q\<rfloor> then y p + snd d else y p)"
    unfolding resolved_two_ahead_def by blast+
  have fx: "free_cell m \<lfloor>y p\<rfloor> \<lfloor>x q\<rfloor>"
  proof (cases "free_cell m \<lfloor>y p\<rfloor> \<lfloor>x p + 2 * fst d\<rfloor>")
    case False
    with xq f show ?thesis by simp
  next
    case True
    then have xq': "x q = x p + fst d" using xq by simp
    have "\<lfloor>x p + fst d\<rfloor> = \<lfloor>x p\<rfloor> \<or> \<lfloor>x p + fst d\<rfloor> = \<lfloor>x p + 2 * fst d\<rfloor>"
      by (rule floor_between[OF small(1)])
    with True f xq' show ?thesis by auto
  qed
  show ?thesis
  proof (cases "free_cell m \<lfloor>y p + 2 * snd d\<rfloor> \<lfloor>x q\<rfloor>")
    case False
    with yq fx show ?thesis by simp
  next
    case True
    then have yq': "y q = y p + snd d" using yq by simp
    have "\<lfloor>y p + snd d\<rfloor> = \<lfloor>y p\<rfloor> \<or> \<lfloor>y p + snd d\<rfloor> = \<lfloor>y p + 2 * snd d\<rfloor>"
      by (rule floor_between[OF small(2)])
    with True fx yq' show ?thesis by auto
  qed
qed

lemma displacement_small:
  assumes "\<bar>dirX p\<bar> \<le> 1" "\<bar>dirY p\<bar> \<le> 1"
  shows "\<bar>fst (displacement i p)\<bar> \<le> 1/2 \<and> \<bar>snd (displacement i p)\<bar> \<le> 1/2"
proof -
  have "\<bar>dirX p * moveSpeed\<bar> = \<bar>dirX p\<bar> * (1/20)" "\<bar>dirY p * moveSpeed\<bar> = \<bar>dirY p\<bar> * (1/20)"
    by (simp_all add: moveSpeed_def abs_mult)
  with assms have "\<bar>dirX p * moveSpeed\<bar> \<le> 1/2" "\<bar>dirY p * moveSpeed\<bar> \<le> 1/2" by linarith+
  then show ?thesis by (cases i) simp_all
qed

text \<open>
  Claim C9. If the player's cell holds 0 before a movement update, it holds 0 after any
  single movement intent, in both engine files. The direction is taken to have
  components of absolute value at most 1, as every unit vector has: the first file
  probes two steps ahead, which covers the cell of the new position only for a step
  shorter than half a cell.
\<close>

theorem movement_keeps_player_in_empty_cell:
  assumes "free_cell m \<lfloor>y p\<rfloor> \<lfloor>x p\<rfloor>" and "\<bar>dirX p\<bar> \<le> 1" and "\<bar>dirY p\<bar> \<le> 1"
  shows "free_cell m \<lfloor>y (final (move_main m i p))\<rfloor> \<lfloor>x (final (move_main m i p))\<rfloor>
       \<and> free_cell m \<lfloor>y (final (move_doom m i p))\<rfloor> \<lfloor>x (final (move_doom m i p))\<rfloor>"
proof -
  from free_cell_row[OF assms(1)] have row: "0 \<le> \<lfloor>y p\<rfloor>" "\<lfloor>y p\<rfloor> < int (length m)" by simp_all
  have small: "\<bar>fst (displacement i p)\<bar> \<le> 1/2" "\<bar>snd (displacement i p)\<bar> \<le> 1/2"
    using displacement_small[OF assms(2) assms(3), of i] by blast+
  have "free_cell m \<lfloor>y (final (move_main m i p))\<rfloor> \<lfloor>x (final (move_main m i p))\<rfloor>"
    by (rule two_ahead_keeps_free[OF move_main_resolved[OF row] assms(1) small])
  moreover have "free_cell m \<lfloor>y (final (move_doom m i p))\<rfloor> \<lfloor>x (final (move_doom m i p))\<rfloor>"
    by (rule candidate_keeps_free[OF move_doom_resolved[OF row] assms(1)])
  ultimately show ?thesis by simp
qed

theorem movement_keeps_player_in_empty_cell_witness:
  "free_cell grid4 \<lfloor>y player4\<rfloor> \<lfloor>x player4\<rfloor> \<and> \<bar>dirX player4\<bar> \<le> 1 \<and> \<bar>dirY player4\<bar> \<le> 1
   \<and> free_cell grid4 \<lfloor>y (final (move_main grid4 Forward player4))\<rfloor>
         \<lfloor>x (final (move_main grid4 Forward player4))\<rfloor>
   \<and> free_cell grid4 \<lfloor>y (final (move_doom grid4 Forward player4))\<rfloor>
         \<lfloor>x (final (move_doom grid4 Forward player4))\<rfloor>"
proof -
  have d: "\<bar>dirX player4\<bar> \<le> 1" "\<bar>dirY player4\<bar> \<le> 1" by (simp_all add: player4_def)
  from movement_keeps_player_in_empty_cell[OF p4_free d, of Forward] p4_free d
  show ?thesis by simp
qed

section \<open>Properties of map generation\<close>

lemma grid32_set_cell: "grid32 m \<Longrightarrow> grid32 (set_cell m i j v)"
proof -
  assume g: "grid32 m"
  show ?thesis
  proof (cases "i < length m")
    case False
    then show ?thesis using g by (simp add: set_cell_def list_update_beyond)
  next
    case True
    then have "length ((m ! i)[j := v]) = 32" using g by (simp add: grid32_def)
    with g show ?thesis
      unfolding grid32_def set_cell_def
      by (auto dest!: set_update_subset_insert[THEN subsetD])
  qed
qed

lemma nth_set_cell:
  assumes "grid32 m" "i < 32" "j < 32"
  shows "set_cell m i j v ! a ! b = (if a = i \<and> b = j then v else m ! a ! b)"
proof -
  from assms have li: "i < length m" and lj: "j < length (m ! i)" by (auto simp: grid32_def)
  show ?thesis
  proof (cases "a = i")
    case True
    with li lj show ?thesis by (simp add: set_cell_def nth_list_update)
  next
    case False
    then show ?thesis by (simp add: set_cell_def)
  qed
qed

lemma fold_inv:
  assumes "P s" and "\<And>a s. a \<in> set xs \<Longrightarrow> P s \<Longrightarrow> P (f a s)"
  shows "P (fold f xs s)"
  using assms by (induction xs arbitrary: s) auto

lemma for_yx_inv:
  assumes "P s"
    and "\<And>i j s. y0 \<le> i \<Longrightarrow> i < y1 \<Longrightarrow> x0 \<le> j \<Longrightarrow> j < x1 \<Longrightarrow> P s \<Longrightarrow> P (body i j s)"
  shows "P (for_yx y0 y1 x0 x1 body s)"
  unfolding for_yx_def
proof (rule fold_inv[where P = P, OF assms(1)])
  fix i s
  assume i: "i \<in> set [y0..<y1]" and s: "P s"
  show "P (fold (body i) [x0..<x1] s)"
    by (rule fold_inv[where P = P, OF s]) (use i in \<open>auto intro: assms(2)\<close>)
qed


lemma fold_rows:
  assumes "grid32 m" "n \<le> 32"
  shows "grid32 (fold (\<lambda>j m. set_cell (set_cell m 0 j 1) 31 j 1) [0..<n] m) \<and>
         (\<forall>a b. fold (\<lambda>j m. set_cell (set_cell m 0 j 1) 31 j 1) [0..<n] m ! a ! b
                 = (if (a = 0 \<or> a = 31) \<and> b < n then 1 else m ! a ! b))"
  using assms(2)
proof (induction n)
  case 0
  then show ?case using assms(1) by simp
next
  case (Suc n)
  let ?m = "fold (\<lambda>j m. set_cell (set_cell m 0 j 1) 31 j 1) [0..<n] m"
  from Suc have g: "grid32 ?m"
    and v: "\<And>a b. ?m ! a ! b = (if (a = 0 \<or> a = 31) \<and> b < n then 1 else m ! a ! b)"
    by simp_all
  have g1: "grid32 (set_cell ?m 0 n 1)" by (rule grid32_set_cell[OF g])
  have n32: "n < 32" using Suc.prems by simp
  have "set_cell (set_cell ?m 0 n 1) 31 n 1 ! a ! b
        = (if (a = 0 \<or> a = 31) \<and> b < Suc n then 1 else m ! a ! b)" for a b
    using n32 by (auto simp: nth_set_cell[OF g1] nth_set_cell[OF g] v less_Suc_eq)
  then show ?case using grid32_set_cell[OF g1] by simp
qed

lemma fold_cols:
  assumes "grid32 m" "n \<le> 32"
  shows "grid32 (fold (\<lambda>i m. set_cell (set_cell m i 0 1) i 31 1) [0..<n] m) \<and>
         (\<forall>a b. fold (\<lambda>i m. set_cell (set_cell m i 0 1) i 31 1) [0..<n] m ! a ! b
                 = (if (b = 0 \<or> b = 31) \<and> a < n then 1 else m ! a ! b))"
  using assms(2)
proof (induction n)
  case 0
  then show ?case using assms(1) by simp
next
  case (Suc n)
  let ?m = "fold (\<lambda>i m. set_cell (set_cell m i 0 1) i 31 1) [0..<n] m"
  from Suc have g: "grid32 ?m"
    and v: "\<And>a b. ?m ! a ! b = (if (b = 0 \<or> b = 31) \<and> a < n then 1 else m ! a ! b)"
    by simp_all
  have g1: "grid32 (set_cell ?m n 0 1)" by (rule grid32_set_cell[OF g])
  have n32: "n < 32" using Suc.prems by simp
  have "set_cell (set_cell ?m n 0 1) n 31 1 ! a ! b
        = (if (b = 0 \<or> b = 31) \<and> a < Suc n then 1 else m ! a ! b)" for a b
    using n32 by (auto simp: nth_set_cell[OF g1] nth_set_cell[OF g] v less_Suc_eq)
  then show ?case using grid32_set_cell[OF g1] by simp
qed

lemma grid32_empty: "grid32 empty_map"
  by (simp add: grid32_def empty_map_def)

lemma outer_walls_empty:
  "grid32 (outer_walls empty_map) \<and> border_walls (outer_walls empty_map)
   \<and> start_cell (outer_walls empty_map) = 0"
proof -
  let ?m1 = "fold (\<lambda>j m. set_cell (set_cell m 0 j 1) 31 j 1) [0..<32] empty_map"
  from fold_rows[OF grid32_empty, of 32] have g1: "grid32 ?m1"
    and v1: "\<And>a b. ?m1 ! a ! b = (if (a = 0 \<or> a = 31) \<and> b < 32 then 1 else empty_map ! a ! b)"
    by simp_all
  from fold_cols[OF g1, of 32] have g2: "grid32 (outer_walls empty_map)"
    and v2: "\<And>a b. outer_walls empty_map ! a ! b
               = (if (b = 0 \<or> b = 31) \<and> a < 32 then 1 else ?m1 ! a ! b)"
    by (simp_all add: outer_walls_def)
  have "empty_map ! 15 ! 15 = 0" by (simp add: empty_map_def)
  then show ?thesis using g2 by (auto simp: border_walls_def start_cell_def v2 v1)
qed


lemma outer_walls_start_empty: "walled_start_empty (outer_walls empty_map)"
  using outer_walls_empty by (simp add: walled_start_empty_def)

lemma set_cell_walled:
  assumes "grid32 m" "border_walls m" "1 \<le> i" "i \<le> 30" "1 \<le> j" "j \<le> 30"
  shows "grid32 (set_cell m i j v) \<and> border_walls (set_cell m i j v)"
proof -
  have n: "set_cell m i j v ! a ! b = (if a = i \<and> b = j then v else m ! a ! b)" for a b
    by (rule nth_set_cell[OF assms(1)]) (use assms in simp_all)
  show ?thesis
    using assms grid32_set_cell[OF assms(1), of i j v]
    unfolding border_walls_def n by auto
qed

lemma set_cell_start:
  assumes "grid32 m" "i < 32" "j < 32"
  shows "start_cell (set_cell m i j v) = (if i = 15 \<and> j = 15 then v else start_cell m)"
  unfolding start_cell_def nth_set_cell[OF assms] by auto

lemma set_cell_start_empty:
  assumes "walled_start_empty m" "1 \<le> i" "i \<le> 30" "1 \<le> j" "j \<le> 30" "\<not> (i = 15 \<and> j = 15)"
  shows "walled_start_empty (set_cell m i j v)"
proof -
  from assms(1) have g: "grid32 m" and b: "border_walls m" and s: "start_cell m = 0"
    by (simp_all add: walled_start_empty_def)
  have "start_cell (set_cell m i j v) = 0"
    using set_cell_start[OF g, of i j v] assms s by auto
  with set_cell_walled[OF g b assms(2-5), of v] show ?thesis
    by (simp add: walled_start_empty_def)
qed


lemma room_cell_doom_inv:
  assumes "walled_start_empty (fst s)" "Q (snd s)" "\<And>g. Q g \<Longrightarrow> Q (\<lambda>n. g (Suc n))"
    and "1 \<le> i" "i \<le> 30" "1 \<le> j" "j \<le> 30" "\<not> (i = 15 \<and> j = 15)"
  shows "walled_start_empty (fst (room_cell_doom c i j s)) \<and> Q (snd (room_cell_doom c i j s))"
proof -
  obtain m g where s: "s = (m, g)" by (cases s)
  have q1: "Q (\<lambda>n. g (Suc n))" using assms(2,3) s by simp
  have w: "walled_start_empty (set_cell m i j v)" for v
    by (rule set_cell_start_empty[OF _ assms(4-8)]) (use assms(1) s in simp)
  show ?thesis
    using assms(1) q1 w
    by (simp add: s room_cell_doom_def math_random_def Let_def)
qed


lemma room_doom_inv:
  assumes "walled_start_empty (fst s) \<and> Q (snd s)" "\<And>g. Q g \<Longrightarrow> Q (\<lambda>n. g (Suc n))"
    and "1 \<le> y0" "y1 \<le> 31" "1 \<le> x0" "x1 \<le> 31" "15 < y0 \<or> y1 \<le> 15 \<or> 15 < x0 \<or> x1 \<le> 15"
  shows "walled_start_empty (fst (for_yx y0 y1 x0 x1 (room_cell_doom c) s))
         \<and> Q (snd (for_yx y0 y1 x0 x1 (room_cell_doom c) s))"
proof (rule for_yx_inv[where P = "\<lambda>s. walled_start_empty (fst s) \<and> Q (snd s)", OF assms(1)])
  fix i j s
  assume "y0 \<le> i" "i < y1" "x0 \<le> j" "j < x1" "walled_start_empty (fst s) \<and> Q (snd s)"
  then show "walled_start_empty (fst (room_cell_doom c i j s)) \<and> Q (snd (room_cell_doom c i j s))"
    using assms(3-7) by (intro room_cell_doom_inv[where Q = Q] assms(2)) auto
qed


lemma doom_map_layout_inv:
  assumes "Q g" "\<And>g. Q g \<Longrightarrow> Q (\<lambda>n. g (Suc n))"
  shows "walled_start_empty (fst (doom_map_layout g)) \<and> Q (snd (doom_map_layout g))"
proof -
  let ?P = "\<lambda>s. walled_start_empty (fst s) \<and> Q (snd s)"
  define m2 where "m2 = for_yx 5 10 5 20
      (\<lambda>i j m. if j mod 3 = 0 \<and> i mod 3 = 0 then set_cell m i j 2 else m) (outer_walls empty_map)"
  define s3 where "s3 = for_yx 15 22 5 12 (room_cell_doom 3) (m2, g)"
  define s4 where "s4 = for_yx 15 22 18 25 (room_cell_doom 4) s3"
  define m5 where "m5 = set_cell (fst s4) 25 25 5"
  define m6 where "m6 = for_yx 22 28 22 28
      (\<lambda>i j m. if i > 23 \<and> j > 23 then set_cell m i j 6 else m) m5"
  define m7 where "m7 = fold (\<lambda>i m. set_cell (set_cell m i 12 1) i 17 1) [10..<22] m6"
  have w2: "walled_start_empty m2" unfolding m2_def
    by (rule for_yx_inv[where P = walled_start_empty, OF outer_walls_start_empty])
       (auto intro!: set_cell_start_empty)
  have p3: "?P s3" unfolding s3_def by (rule room_doom_inv[OF _ assms(2)]) (simp_all add: w2 assms(1))
  have p4: "?P s4" unfolding s4_def by (rule room_doom_inv[OF p3 assms(2)]) simp_all
  have w5: "walled_start_empty m5" unfolding m5_def
    by (rule set_cell_start_empty) (use p4 in simp_all)
  have w6: "walled_start_empty m6" unfolding m6_def
    by (rule for_yx_inv[where P = walled_start_empty, OF w5])
       (auto intro!: set_cell_start_empty)
  have w7: "walled_start_empty m7" unfolding m7_def
    by (rule fold_inv[where P = walled_start_empty]) (use w6 in \<open>auto intro!: set_cell_start_empty\<close>)
  have "doom_map_layout g = (m7, snd s4)"
    by (simp add: doom_map_layout_def Let_def m2_def s3_def s4_def m5_def m6_def m7_def)
  with w7 p4 show ?thesis by simp
qed


lemma floor_scaled:
  fixes u :: real and n :: int
  assumes "0 \<le> u" "u < 1" "0 < n"
  shows "0 \<le> \<lfloor>u * of_int n\<rfloor> \<and> \<lfloor>u * of_int n\<rfloor> < n"
proof -
  have "0 \<le> u * of_int n" using assms by simp
  then have a: "0 \<le> \<lfloor>u * of_int n\<rfloor>" by simp
  have "u * of_int n < of_int n" using assms by simp
  then have "\<lfloor>u * of_int n\<rfloor> < n" by (simp only: floor_less_iff)
  with a show ?thesis by simp
qed

lemma good_rng_tail: "good_rng g \<Longrightarrow> good_rng (\<lambda>n. g (Suc n))"
  by (simp add: good_rng_def)

lemma is_free_grid32:
  assumes "grid32 m" "0 \<le> i" "i < 32" "0 \<le> j" "j < 32"
  shows "is_free m i j = Some (m ! nat i ! nat j = 0)"
proof -
  from assms have "nat i < length m" by (simp add: grid32_def)
  then have "m ! nat i \<in> set m" by simp
  with assms have "length (m ! nat i) = 32" by (simp add: grid32_def)
  with assms show ?thesis by (simp add: is_free_def cell_at_def js_index_def grid32_def)
qed

lemma pillar_inv:
  assumes w: "walled_start_upto k m" and g: "good_rng g" and k: "1 \<le> k"
  shows "\<exists>m' g'. pillar k (m, g) = Done (m', g') \<and> walled_start_upto k m' \<and> good_rng g'"
proof -
  define px where "px = \<lfloor>g 0 * 28\<rfloor> + 2"
  define py where "py = \<lfloor>g 1 * 28\<rfloor> + 2"
  define c where "c = \<lfloor>g 2 * of_int k\<rfloor> + 1"
  from g have r: "0 \<le> g 0" "g 0 < 1" "0 \<le> g 1" "g 1 < 1" "0 \<le> g 2" "g 2 < 1"
    by (simp_all add: good_rng_def)
  from floor_scaled[OF r(1,2), of 28] have bx: "2 \<le> px" "px \<le> 29" by (simp_all add: px_def)
  from floor_scaled[OF r(3,4), of 28] have by': "2 \<le> py" "py \<le> 29" by (simp_all add: py_def)
  from floor_scaled[OF r(5,6), of k] k have bc: "1 \<le> c" "c \<le> k" by (simp_all add: c_def)
  from w have g32: "grid32 m" and bw: "border_walls m"
    and st: "0 \<le> start_cell m" "start_cell m \<le> k"
    by (simp_all add: walled_start_upto_def)
  have fr: "is_free m py px = Some (m ! nat py ! nat px = 0)"
    by (rule is_free_grid32[OF g32]) (use bx by' in simp_all)
  have g2: "good_rng (\<lambda>n. g (Suc (Suc n)))" using g by (simp add: good_rng_def)
  have g3: "good_rng (\<lambda>n. g (Suc (Suc (Suc n))))" using g by (simp add: good_rng_def)
  have unf: "pillar k (m, g) =
      (case is_free m py px of
         None \<Rightarrow> TypeError (m, \<lambda>n. g (Suc (Suc n)))
       | Some False \<Rightarrow> Done (m, \<lambda>n. g (Suc (Suc n)))
       | Some True \<Rightarrow> Done (set_cell m (nat py) (nat px) c, \<lambda>n. g (Suc (Suc (Suc n)))))"
    by (simp add: pillar_def math_random_def Let_def px_def py_def c_def numeral_2_eq_2
          split: option.split bool.split)
  show ?thesis
  proof (cases "m ! nat py ! nat px = 0")
    case False
    then show ?thesis using w g2 by (simp add: unf fr)
  next
    case True
    have wl: "grid32 (set_cell m (nat py) (nat px) c) \<and> border_walls (set_cell m (nat py) (nat px) c)"
      by (rule set_cell_walled[OF g32 bw]) (use bx by' in simp_all)
    have "start_cell (set_cell m (nat py) (nat px) c)
          = (if nat py = 15 \<and> nat px = 15 then c else start_cell m)"
      by (rule set_cell_start[OF g32]) (use bx by' in simp_all)
    then have "0 \<le> start_cell (set_cell m (nat py) (nat px) c)
             \<and> start_cell (set_cell m (nat py) (nat px) c) \<le> k"
      using st bc by auto
    with wl have "walled_start_upto k (set_cell m (nat py) (nat px) c)"
      by (simp add: walled_start_upto_def)
    then show ?thesis using True g3 by (simp add: unf fr)
  qed
qed

lemma pillars_inv:
  assumes "walled_start_upto k (fst s)" "good_rng (snd s)" "1 \<le> k"
  shows "\<exists>m' g'. pillars n k s = Done (m', g') \<and> walled_start_upto k m' \<and> good_rng g'"
  using assms
proof (induction n arbitrary: s)
  case 0
  then show ?case by (cases s) simp
next
  case (Suc n)
  obtain m g where s: "s = (m, g)" by (cases s)
  from pillar_inv[of k m g] Suc.prems s obtain m1 g1 where
    p: "pillar k (m, g) = Done (m1, g1)" "walled_start_upto k m1" "good_rng g1" by auto
  from Suc.IH[of "(m1, g1)"] p Suc.prems(3) show ?case by (simp add: s)
qed

lemma start_empty_upto: "walled_start_empty m \<Longrightarrow> 0 \<le> k \<Longrightarrow> walled_start_upto k m"
  by (simp add: walled_start_empty_def walled_start_upto_def)


text \<open>
  The stream that answers \<open>0.47\<close> to every call: the first random pillar is drawn at
  \<open>x = y = floor (0.47 * 28) + 2 = 15\<close>.
\<close>

lemma const_tail: "g = (\<lambda>_. c) \<Longrightarrow> (\<lambda>n. g (Suc n)) = (\<lambda>_. c)"
  by simp








section \<open>Properties of the render step\<close>

subsection \<open>The loops of a column\<close>

lemma js_for_nan_start: "js_for NaN b f s = Some s"
  by (subst js_for.simps) simp

lemma js_for_nan_limit: "js_for a NaN f s = Some s"
  by (subst js_for.simps) (cases a, simp_all)

lemma rows_from_Suc: "rows_from a (Suc n) = Fin a # rows_from (a + 1) n"
proof -
  have "[0..<Suc n] = 0 # map Suc [0..<n]" by (simp add: upt_conv_Cons map_Suc_upt del: upt_Suc)
  then show ?thesis by (simp add: rows_from_def o_def add.assoc del: upt_Suc)
qed

lemma js_for_fin:
  "js_for (Fin a) (Fin b) f s = Some (fold f (rows_from a (nat \<lceil>b - a\<rceil>)) s)"
proof (induction "nat \<lceil>b - a\<rceil>" arbitrary: a s)
  case 0
  then have "\<not> a < b" by (simp add: ceiling_le_zero)
  then show ?case using 0 by (subst js_for.simps) (simp add: rows_from_def)
next
  case (Suc n)
  from Suc(2) have "0 < \<lceil>b - a\<rceil>" by linarith
  then have lt: "a < b" by (simp add: zero_less_ceiling)
  have "b - (a + 1) = b - a - 1" by simp
  then have "\<lceil>b - (a + 1)\<rceil> = \<lceil>b - a\<rceil> - 1" by (simp only: ceiling_diff_one)
  then have n: "n = nat \<lceil>b - (a + 1)\<rceil>" using Suc(2) by simp
  have "js_for (Fin a) (Fin b) f s = js_for (Fin (a + 1)) (Fin b) f (f (Fin a) s)"
    using lt by (subst js_for.simps) simp
  also have "\<dots> = Some (fold f (rows_from (a + 1) n) (f (Fin a) s))"
    using Suc(1)[OF n] n by simp
  finally show ?case using Suc(2)[symmetric] by (simp add: rows_from_Suc)
qed


lemma js_for_inv:
  assumes "fin_or_nan a" "fin_or_nan b" "P s" "\<And>v s. P s \<Longrightarrow> P (f v s)"
  shows "\<exists>s'. js_for a b f s = Some s' \<and> P s'"
proof (cases a)
  case (Fin a')
  show ?thesis
  proof (cases b)
    case (Fin b')
    have "P (fold f xs s)" for xs
      using assms(3) by (induction xs arbitrary: s) (auto intro: assms(4))
    then show ?thesis using \<open>a = Fin a'\<close> Fin by (simp add: js_for_fin)
  qed (use assms in \<open>auto simp: fin_or_nan_def js_for_nan_limit\<close>)
qed (use assms in \<open>auto simp: fin_or_nan_def js_for_nan_start\<close>)

lemma lineHeight_not_ninf: "lineHeight e r s \<noteq> NInf"
proof -
  have "jdiv (Fin (real (height e))) z \<noteq> NInf" for z
    by (cases z) auto
  moreover have "jfloor z = NInf \<Longrightarrow> z = NInf" for z by (cases z) auto
  ultimately show ?thesis unfolding lineHeight_def by blast
qed

lemma drawStart_fin_or_nan: "lh \<noteq> NInf \<Longrightarrow> fin_or_nan (drawStart e lh)"
  by (cases lh) (auto simp: drawStart_def fin_or_nan_def Let_def)

lemma drawEnd_fin_or_nan: "lh \<noteq> NInf \<Longrightarrow> fin_or_nan (drawEnd e lh)"
  by (cases lh) (auto simp: drawEnd_def fin_or_nan_def Let_def)

lemma fin_or_nan_succ: "fin_or_nan z \<Longrightarrow> fin_or_nan (jadd z (Fin 1))"
  by (cases z) (auto simp: fin_or_nan_def)

lemma length_ta_set: "length (ta_set a i v) = length a"
  by (cases i) (auto simp: ta_set_def)

lemma length_put_rgba: "length (put_rgba d i r g b) = length d"
  by (simp add: put_rgba_def length_ta_set)

lemma length_wall_pixel: "length (wall_pixel e col tex tx lh sd row d) = length d"
  by (simp add: wall_pixel_def Let_def length_put_rgba)

lemma length_flat_pixel: "length (flat_pixel e col c row d) = length d"
  by (simp add: flat_pixel_def length_put_rgba)

lemma draw_wall_total:
  "\<exists>d'. draw_wall e col s tex d = Some d' \<and> length d' = length d"
  unfolding draw_wall_def Let_def
  by (rule js_for_inv[where P = "\<lambda>d'. length d' = length d"])
     (simp_all add: drawStart_fin_or_nan drawEnd_fin_or_nan lineHeight_not_ninf length_wall_pixel)

lemma fin_or_nan_Fin: "fin_or_nan (Fin a)"
  by (simp add: fin_or_nan_def)

lemma draw_floor_ceiling_total:
  "\<exists>d'. draw_floor_ceiling e col s fc cc d = Some d' \<and> length d' = length d"
proof -
  let ?lh = "lineHeight e (make_ray e col) s"
  have f1: "fin_or_nan (jadd (drawEnd e ?lh) (Fin 1))"
    by (intro fin_or_nan_succ drawEnd_fin_or_nan lineHeight_not_ninf)
  have f2: "fin_or_nan (drawStart e ?lh)"
    by (intro drawStart_fin_or_nan lineHeight_not_ninf)
  from js_for_inv[where P = "\<lambda>d'. length d' = length d" and s = d
      and f = "flat_pixel e col fc", OF f1 fin_or_nan_Fin]
  obtain d1 where d1: "js_for (jadd (drawEnd e ?lh) (Fin 1)) (Fin (real (height e)))
      (flat_pixel e col fc) d = Some d1" "length d1 = length d"
    by (auto simp: length_flat_pixel)
  from js_for_inv[where P = "\<lambda>d'. length d' = length d" and s = d1
      and f = "flat_pixel e col cc", OF fin_or_nan_Fin f2]
  obtain d2 where "js_for (Fin 0) (drawStart e ?lh) (flat_pixel e col cc) d1 = Some d2"
    "length d2 = length d"
    by (auto simp: length_flat_pixel d1)
  with d1 show ?thesis by (simp add: draw_floor_ceiling_def Let_def)
qed

lemma get_texture_wall:
  assumes "cell_at (worldMap e) (mapY s) (mapX s) = Cell v" "0 < v" "textures e \<noteq> []"
  shows "\<exists>tex. get_texture e s = Some tex"
proof -
  let ?n = "int (length (textures e))"
  have n: "0 < ?n" using assms(3) by simp
  have "js_rem (v - 1) ?n = (v - 1) mod ?n"
  proof (cases "v = 1")
    case True
    then show ?thesis by (simp add: js_rem_def)
  next
    case False
    with assms(2) have "0 < v - 1" by simp
    then show ?thesis using n by (simp add: js_rem_def)
  qed
  moreover have "0 \<le> (v - 1) mod ?n" "(v - 1) mod ?n < ?n" using n by simp_all
  ultimately show ?thesis using assms by (simp add: get_texture_def js_index_def)
qed

lemma render_column_main_total:
  assumes "cast_ray e col = Done s" "get_texture e s = Some tex"
  shows "\<exists>d'. render_column_main e col d = Some (Done d') \<and> length d' = length d"
proof -
  from draw_wall_total[of e col s tex d] obtain d1 where
    d1: "draw_wall e col s tex d = Some d1" "length d1 = length d" by blast
  from draw_floor_ceiling_total[of e col s "(0x40, 0x20, 0x10)" "(0x20, 0x10, 0x08)" d1]
  obtain d2 where "draw_floor_ceiling e col s (0x40, 0x20, 0x10) (0x20, 0x10, 0x08) d1 = Some d2"
    "length d2 = length d1" by blast
  with d1 assms show ?thesis by (simp add: render_column_main_def)
qed

lemma render_column_doom_total:
  assumes "cast_ray e col = Done s" "get_texture e s = Some tex"
  shows "\<exists>d'. render_column_doom e col (d, g) = Some (Done (d', \<lambda>n. g (n + 2)))
            \<and> length d' = length d"
proof -
  from draw_wall_total[of e col s tex d] obtain d1 where
    d1: "draw_wall e col s tex d = Some d1" "length d1 = length d" by blast
  from draw_floor_ceiling_total[of e col s "pick_colour floorColors (g 0)"
      "pick_colour ceilingColors (g 1)" d1]
  obtain d2 where "draw_floor_ceiling e col s (pick_colour floorColors (g 0))
      (pick_colour ceilingColors (g 1)) d1 = Some d2"
    "length d2 = length d1" by blast
  with d1 assms show ?thesis
    by (simp add: render_column_doom_def math_random_def Let_def)
qed


lemma ta_set_nat: "ta_set a (Fin (real n)) v = a[n := v]"
  by (simp add: ta_set_def)

lemma put_rgba_nat:
  "put_rgba d (Fin (real n)) r g b = d[n := r, n + 1 := g, n + 2 := b, n + 3 := 255]"
proof -
  have "Fin (real n + 1) = Fin (real (n + 1))" "Fin (real n + 2) = Fin (real (n + 2))"
    "Fin (real n + 3) = Fin (real (n + 3))" by simp_all
  then show ?thesis unfolding put_rgba_def jadd.simps by (simp only: ta_set_nat)
qed

lemma pixel_index_nat:
  "pixel_index e col (Fin (real k)) = Fin (real ((k * width e + col) * 4))"
  by (simp add: pixel_index_def)

lemma put_rgba_above:
  "n + 3 < j \<Longrightarrow> put_rgba d (Fin (real n)) r g b ! j = d ! j"
  by (simp add: put_rgba_nat)

lemma wall_pixel_above:
  assumes "col < width e" "(k + 1) * width e * 4 \<le> j"
  shows "wall_pixel e col tex tx lh sd (Fin (real k)) d ! j = d ! j"
proof -
  have "(k * width e + col) * 4 + 3 < (k + 1) * width e * 4" using assms(1) by simp
  with assms(2) have "(k * width e + col) * 4 + 3 < j" by linarith
  then show ?thesis
    by (simp add: wall_pixel_def Let_def pixel_index_nat put_rgba_above del: of_nat_mult of_nat_add)
qed

lemma run_columns_inv:
  assumes "P s" and "\<And>c s. c \<in> set cs \<Longrightarrow> P s \<Longrightarrow> \<exists>s'. f c s = Some (Done s') \<and> P s'"
  shows "\<exists>s'. run_columns f cs s = Some (Done s') \<and> P s'"
  using assms
proof (induction cs arbitrary: s)
  case Nil
  then show ?case by simp
next
  case (Cons c cs)
  from Cons.prems(2)[of c s] Cons.prems(1) obtain s1 where
    s1: "f c s = Some (Done s1)" "P s1" by auto
  from Cons.IH[OF s1(2)] Cons.prems(2) s1 show ?case by auto
qed

subsection \<open>A first frame of the first file\<close>

text \<open>
  The first file right after construction, with a pillar in the cell in front of the
  player: every ray hits that pillar at distance one half.
\<close>

lemma boxed_cell: "cell_at (worldMap boxed_engine) 15 14 = Cell 1"
  unfolding boxed_engine_def Engine.simps by code_simp


lemma boxed_fields:
  "width boxed_engine = 1024" "height boxed_engine = 768"
  "mapWidth boxed_engine = 32" "mapHeight boxed_engine = 32"
  "x (player boxed_engine) = 31/2" "y (player boxed_engine) = 31/2"
  "dirX (player boxed_engine) = - 1" "dirY (player boxed_engine) = 0"
  "planeX (player boxed_engine) = 0" "planeY (player boxed_engine) = 66/100"
  "textures boxed_engine = main_textures"
  by (simp_all add: boxed_engine_def)

lemma boxed_ray:
  assumes "col < 1024"
  shows "rayDirX (make_ray boxed_engine col) = - 1"
    and "\<bar>rayDirY (make_ray boxed_engine col)\<bar> < 1"
    and "deltaDistX (make_ray boxed_engine col) = Fin 1"
    and "deltaDistY (make_ray boxed_engine col)
           = jabs (jdiv (Fin 1) (Fin (rayDirY (make_ray boxed_engine col))))"
proof -
  have c: "- 1 \<le> 2 * real col / 1024 - 1" "2 * real col / 1024 - 1 < 1" using assms by simp_all
  have "rayDirY (make_ray boxed_engine col) = 66/100 * (2 * real col / 1024 - 1)"
    by (simp add: make_ray_def Let_def boxed_fields)
  moreover have "\<bar>66/100 * (2 * real col / 1024 - 1)\<bar> < 1"
    using c by (simp add: abs_mult) 
  ultimately show "\<bar>rayDirY (make_ray boxed_engine col)\<bar> < 1" by simp
qed (simp_all add: make_ray_def Let_def boxed_fields)

lemma half_less_side:
  assumes "\<bar>t\<bar> < 1"
  shows "jlt (Fin (1/2)) (jmul (Fin (1/2)) (jabs (jdiv (Fin 1) (Fin t))))"
proof (cases "t = 0")
  case True
  then show ?thesis by (simp add: inf_times_def)
next
  case False
  then have "1 < \<bar>1 / t\<bar>" using assms by (simp add: abs_divide)
  then show ?thesis using False by simp
qed

lemma boxed_cast:
  assumes "col < 1024"
  shows "\<exists>s. cast_ray boxed_engine col = Done s \<and> mapX s = 14 \<and> mapY s = 15 \<and> side s = 0"
proof -
  let ?r = "make_ray boxed_engine col"
  let ?s0 = "dda_init boxed_engine ?r"
  note r = boxed_ray[OF assms]
  have sx: "sideDistX ?s0 = Fin (1/2)"
    by (simp add: dda_init_def Let_def r boxed_fields)
  have sy: "sideDistY ?s0 = jmul (Fin (1/2)) (jabs (jdiv (Fin 1) (Fin (rayDirY ?r))))"
    by (simp add: dda_init_def Let_def r boxed_fields)
  have m: "mapX ?s0 = 15" "mapY ?s0 = 15"
    by (simp_all add: dda_init_def Let_def boxed_fields)
  have lt: "jlt (sideDistX ?s0) (sideDistY ?s0)"
    unfolding sx sy by (rule half_less_side[OF r(2)])
  have a: "mapX (dda_advance ?r ?s0) = 14" "mapY (dda_advance ?r ?s0) = 15"
      "side (dda_advance ?r ?s0) = 0"
    using lt by (simp_all add: dda_advance_def stepX_def r m)
  have "dda boxed_engine ?r ?s0 = Done (dda_advance ?r ?s0)"
    by (subst dda.simps) (simp add: a in_grid_def boxed_fields boxed_cell)
  with a show ?thesis by (simp add: cast_ray_def)
qed

lemma boxed_strip:
  assumes "col < 1024" "mapX s = 14" "mapY s = 15" "side s = 0"
  shows "lineHeight boxed_engine (make_ray boxed_engine col) s = Fin 1536"
    and "get_texture boxed_engine s = Some (main_textures ! 0)"
proof -
  note r = boxed_ray[OF assms(1)]
  have "perpWallDist boxed_engine (make_ray boxed_engine col) s = Fin (1/2)"
    by (simp add: perpWallDist_def assms stepX_def r boxed_fields)
  then show "lineHeight boxed_engine (make_ray boxed_engine col) s = Fin 1536"
    by (simp add: lineHeight_def boxed_fields)
  have "main_textures \<noteq> []" "length main_textures = 8" by (simp_all add: main_textures_def)
  then show "get_texture boxed_engine s = Some (main_textures ! 0)"
    by (simp add: get_texture_def assms boxed_cell boxed_fields js_rem_def js_index_def)
qed

lemma boxed_limits:
  "drawStart boxed_engine (Fin 1536) = Fin 0" "drawEnd boxed_engine (Fin 1536) = Fin 767"
  by (simp_all add: drawStart_def drawEnd_def Let_def boxed_fields)

lemma boxed_column:
  assumes "col < 1024" "bottom_blank d"
  shows "\<exists>d'. render_column_main boxed_engine col d = Some (Done d') \<and> bottom_blank d'"
proof -
  from boxed_cast[OF assms(1)] obtain s where
    s: "cast_ray boxed_engine col = Done s" "mapX s = 14" "mapY s = 15" "side s = 0" by blast
  note st = boxed_strip[OF assms(1) s(2-4)]
  let ?tex = "main_textures ! 0"
  let ?body = "wall_pixel boxed_engine col ?tex (texX boxed_engine (make_ray boxed_engine col) s ?tex)
                 (Fin 1536) 0"
  have wall: "draw_wall boxed_engine col s ?tex d = Some (fold ?body (rows_from 0 767) d)"
    by (simp add: draw_wall_def Let_def st boxed_limits js_for_fin s)
  have inv: "bottom_blank (fold ?body (map (\<lambda>k. Fin (real k)) ks) d0)"
    if "bottom_blank d0" "\<forall>k \<in> set ks. k < 767" for ks d0
    using that
  proof (induction ks arbitrary: d0)
    case Nil
    then show ?case by simp
  next
    case (Cons k ks)
    have k: "k < 767" using Cons.prems(2) by simp
    have "?body (Fin (real k)) d0 ! j = d0 ! j" if "767 * 1024 * 4 \<le> j" for j
      by (rule wall_pixel_above) (use assms(1) k that in \<open>simp_all add: boxed_fields\<close>)
    then have "bottom_blank (?body (Fin (real k)) d0)"
      using Cons.prems(1) by (simp add: bottom_blank_def length_wall_pixel)
    from Cons.IH[OF this] Cons.prems(2) show ?case by simp
  qed
  have "bottom_blank (fold ?body (rows_from 0 767) d)"
    using inv[OF assms(2), of "[0..<767]"] by (simp add: rows_from_def)
  moreover have "draw_floor_ceiling boxed_engine col s (0x40, 0x20, 0x10) (0x20, 0x10, 0x08) d1 = Some d1" for d1
    by (simp add: draw_floor_ceiling_def Let_def st boxed_limits js_for_fin boxed_fields rows_from_def)
  ultimately show ?thesis
    by (simp add: render_column_main_def s st wall)
qed

lemma blank_bottom_blank: "bottom_blank (blank_frame boxed_engine)"
  by (simp add: bottom_blank_def blank_frame_def boxed_fields)

text \<open>
  Claim C8 fails on this input. In every column \<open>lineHeight\<close> is 1536, \<open>drawStart\<close> is 0 and
  \<open>drawEnd\<close> is clamped to 767; the wall loop writes the rows 0 to 766, the floor loop
  starts at row \<open>drawEnd + 1 = 768\<close> and the ceiling loop is empty. The render step returns
  a frame whose bottom row, row 767, still holds the zero bytes of the fresh image data:
  it is written by none of the three loops.
\<close>

theorem render_leaves_bottom_row_unwritten:
  "\<exists>d. render_main boxed_engine = Some (Done d) \<and> length d = 1024 * 768 * 4
       \<and> drop (767 * 1024 * 4) d = replicate (1024 * 4) 0"
proof -
  from run_columns_inv[where P = bottom_blank and f = "render_column_main boxed_engine"
      and cs = "[0..<1024]", OF blank_bottom_blank]
  obtain d where d: "render_main boxed_engine = Some (Done d)" "bottom_blank d"
    using boxed_column by (auto simp: render_main_def boxed_fields)
  have "drop (767 * 1024 * 4) d = replicate (1024 * 4) 0"
    using d(2) by (intro nth_equalityI) (auto simp: bottom_blank_def)
  with d show ?thesis by (auto simp: bottom_blank_def)
qed


subsection \<open>The inputs of the render step of the first file\<close>

lemma same_fields:
  assumes "same_inputs e1 e2"
  shows "width e1 = width e2" "height e1 = height e2"
    "mapWidth e1 = mapWidth e2" "mapHeight e1 = mapHeight e2"
    "x (player e1) = x (player e2)" "y (player e1) = y (player e2)"
    "dirX (player e1) = dirX (player e2)" "dirY (player e1) = dirY (player e2)"
    "planeX (player e1) = planeX (player e2)" "planeY (player e1) = planeY (player e2)"
    "worldMap e1 = worldMap e2" "textures e1 = textures e2"
  using assms by (simp_all add: same_inputs_def)

lemma same_make_ray: "same_inputs e1 e2 \<Longrightarrow> make_ray e1 col = make_ray e2 col"
  unfolding make_ray_def by (simp only: same_fields)

lemma same_dda_init: "same_inputs e1 e2 \<Longrightarrow> dda_init e1 r = dda_init e2 r"
  unfolding dda_init_def by (simp only: same_fields)

lemma same_in_grid: "same_inputs e1 e2 \<Longrightarrow> in_grid e1 a b = in_grid e2 a b"
  unfolding in_grid_def by (simp only: same_fields)

lemma dda_cong:
  "mapWidth e1 = mapWidth e2 \<Longrightarrow> mapHeight e1 = mapHeight e2 \<Longrightarrow> worldMap e1 = worldMap e2
   \<Longrightarrow> dda e1 r s = dda e2 r s"
proof (induction e1 r s rule: dda.induct)
  case (1 e r s)
  note w = "1.prems"(3)
  have g: "in_grid e a b = in_grid e2 a b" for a b
    using "1.prems" by (simp add: in_grid_def)
  show ?case
  proof (cases "in_grid e (mapX (dda_advance r s)) (mapY (dda_advance r s))")
    case False
    then show ?thesis using g by (subst dda.simps, subst (2) dda.simps) simp
  next
    case True
    show ?thesis
    proof (cases "cell_at (worldMap e) (mapY (dda_advance r s)) (mapX (dda_advance r s))")
      case NoRow
      then show ?thesis using True g w by (subst dda.simps, subst (2) dda.simps) simp
    next
      case NoCell
      from "1.IH"(1)[OF True NoCell "1.prems"]
      show ?thesis using True g w NoCell by (subst dda.simps, subst (2) dda.simps) simp
    next
      case (Cell v)
      show ?thesis
      proof (cases "0 < v")
        case True
        then show ?thesis using \<open>in_grid e _ _\<close> g w Cell
          by (subst dda.simps, subst (2) dda.simps) simp
      next
        case False
        from "1.IH"(2)[OF True Cell False "1.prems"]
        show ?thesis using True g w Cell False by (subst dda.simps, subst (2) dda.simps) simp
      qed
    qed
  qed
qed

lemma same_dda: "same_inputs e1 e2 \<Longrightarrow> dda e1 r s = dda e2 r s"
  by (rule dda_cong) (simp_all add: same_fields)

lemma cast_ray_textures: "cast_ray (e\<lparr>textures := t\<rparr>) col = cast_ray e col"
proof -
  have "dda (e\<lparr>textures := t\<rparr>) r s = dda e r s" for r s
    by (rule dda_cong) simp_all
  then show ?thesis by (simp add: cast_ray_def make_ray_def dda_init_def)
qed

lemma same_cast_ray: "same_inputs e1 e2 \<Longrightarrow> cast_ray e1 col = cast_ray e2 col"
  unfolding cast_ray_def by (simp only: same_make_ray same_dda_init same_dda)

lemma same_perp: "same_inputs e1 e2 \<Longrightarrow> perpWallDist e1 r s = perpWallDist e2 r s"
  unfolding perpWallDist_def by (simp only: same_fields)

lemma same_lineHeight: "same_inputs e1 e2 \<Longrightarrow> lineHeight e1 r s = lineHeight e2 r s"
  unfolding lineHeight_def by (simp only: same_fields same_perp)

lemma same_drawStart: "same_inputs e1 e2 \<Longrightarrow> drawStart e1 lh = drawStart e2 lh"
  unfolding drawStart_def by (simp only: same_fields)

lemma same_drawEnd: "same_inputs e1 e2 \<Longrightarrow> drawEnd e1 lh = drawEnd e2 lh"
  unfolding drawEnd_def by (simp only: same_fields)

lemma same_get_texture: "same_inputs e1 e2 \<Longrightarrow> get_texture e1 s = get_texture e2 s"
  unfolding get_texture_def by (simp only: same_fields)

lemma same_texX: "same_inputs e1 e2 \<Longrightarrow> texX e1 r s tex = texX e2 r s tex"
  unfolding texX_def by (simp only: same_fields same_perp)

lemma same_pixel_index: "same_inputs e1 e2 \<Longrightarrow> pixel_index e1 col row = pixel_index e2 col row"
  unfolding pixel_index_def by (simp only: same_fields)

lemma same_wall_pixel:
  "same_inputs e1 e2 \<Longrightarrow> wall_pixel e1 col tex tx lh sd row d = wall_pixel e2 col tex tx lh sd row d"
  unfolding wall_pixel_def by (simp only: same_fields same_pixel_index)

lemma same_flat_pixel: "same_inputs e1 e2 \<Longrightarrow> flat_pixel e1 col c row d = flat_pixel e2 col c row d"
  unfolding flat_pixel_def by (simp only: same_pixel_index)

lemma same_draw_wall: "same_inputs e1 e2 \<Longrightarrow> draw_wall e1 col s tex d = draw_wall e2 col s tex d"
proof -
  assume a: "same_inputs e1 e2"
  have "wall_pixel e1 col tex tx lh sd = wall_pixel e2 col tex tx lh sd" for tx lh sd
    by (intro ext) (rule same_wall_pixel[OF a])
  then show ?thesis
    unfolding draw_wall_def
    by (simp only: same_make_ray[OF a] same_lineHeight[OF a] same_drawStart[OF a]
        same_drawEnd[OF a] same_texX[OF a])
qed

lemma same_draw_floor_ceiling:
  "same_inputs e1 e2 \<Longrightarrow> draw_floor_ceiling e1 col s fc cc d = draw_floor_ceiling e2 col s fc cc d"
proof -
  assume a: "same_inputs e1 e2"
  have "flat_pixel e1 col c = flat_pixel e2 col c" for c
    by (intro ext) (rule same_flat_pixel[OF a])
  then show ?thesis
    unfolding draw_floor_ceiling_def
    by (simp only: same_make_ray[OF a] same_lineHeight[OF a] same_drawStart[OF a]
        same_drawEnd[OF a] same_fields(2)[OF a])
qed

lemma same_render_column_main:
  "same_inputs e1 e2 \<Longrightarrow> render_column_main e1 col d = render_column_main e2 col d"
  unfolding render_column_main_def
  by (simp only: same_cast_ray same_get_texture same_draw_wall same_draw_floor_ceiling)

lemma same_render_main: "same_inputs e1 e2 \<Longrightarrow> render_main e1 = render_main e2"
proof -
  assume a: "same_inputs e1 e2"
  have "render_column_main e1 = render_column_main e2"
    by (intro ext) (rule same_render_column_main[OF a])
  then show ?thesis
    unfolding render_main_def blank_frame_def by (simp only: same_fields(1,2)[OF a])
qed


subsection \<open>The random draws of the render step of the second file\<close>

text \<open>
  The frame of the second file depends on the random source only through the colours
  that the first \<open>2 * width\<close> draws select.
\<close>

lemma frame_of_simps:
  "frame_of None = None"
  "frame_of (Some (TypeError (d, g))) = Some (TypeError d)"
  "frame_of (Some (Done (d, g))) = Some (Done d)"
  by (simp_all add: frame_of_def)

lemma pick_colour_index:
  assumes "\<lfloor>u * 3\<rfloor> = \<lfloor>v * 3\<rfloor>"
  shows "pick_colour floorColors u = pick_colour floorColors v"
    and "pick_colour ceilingColors u = pick_colour ceilingColors v"
  using assms by (simp_all add: pick_colour_def floorColors_def ceilingColors_def)

lemma render_column_doom_draws:
  assumes "pick_colour floorColors (g1 0) = pick_colour floorColors (g2 0)"
    and "pick_colour ceilingColors (g1 1) = pick_colour ceilingColors (g2 1)"
  shows "(render_column_doom e col (d, g1) = None \<and> render_column_doom e col (d, g2) = None)
       \<or> (\<exists>d'. render_column_doom e col (d, g1) = Some (TypeError (d', g1))
              \<and> render_column_doom e col (d, g2) = Some (TypeError (d', g2)))
       \<or> (\<exists>d'. render_column_doom e col (d, g1) = Some (Done (d', \<lambda>n. g1 (n + 2)))
              \<and> render_column_doom e col (d, g2) = Some (Done (d', \<lambda>n. g2 (n + 2))))"
  using assms
  by (auto simp: render_column_doom_def math_random_def Let_def
      split: outcome.splits option.splits)

lemma run_columns_doom_draws:
  assumes "\<forall>n < 2 * length cs. \<lfloor>g1 n * 3\<rfloor> = \<lfloor>g2 n * 3\<rfloor>"
  shows "frame_of (run_columns (render_column_doom e) cs (d, g1))
       = frame_of (run_columns (render_column_doom e) cs (d, g2))"
  using assms
proof (induction cs arbitrary: d g1 g2)
  case Nil
  then show ?case by (simp add: frame_of_simps)
next
  case (Cons c cs)
  have i0: "\<lfloor>g1 0 * 3\<rfloor> = \<lfloor>g2 0 * 3\<rfloor>" and i1: "\<lfloor>g1 1 * 3\<rfloor> = \<lfloor>g2 1 * 3\<rfloor>"
    using Cons.prems by simp_all
  have g01: "pick_colour floorColors (g1 0) = pick_colour floorColors (g2 0)"
    "pick_colour ceilingColors (g1 1) = pick_colour ceilingColors (g2 1)"
    by (rule pick_colour_index(1)[OF i0], rule pick_colour_index(2)[OF i1])
  have tl: "\<forall>n < 2 * length cs. \<lfloor>g1 (n + 2) * 3\<rfloor> = \<lfloor>g2 (n + 2) * 3\<rfloor>"
    using Cons.prems by simp
  from render_column_doom_draws[OF g01, of e c d]
  show ?case
  proof (elim disjE exE conjE)
    assume "render_column_doom e c (d, g1) = None" "render_column_doom e c (d, g2) = None"
    then show ?thesis by (simp add: frame_of_simps)
  next
    fix d'
    assume "render_column_doom e c (d, g1) = Some (TypeError (d', g1))"
      "render_column_doom e c (d, g2) = Some (TypeError (d', g2))"
    then show ?thesis by (simp add: frame_of_simps)
  next
    fix d'
    assume "render_column_doom e c (d, g1) = Some (Done (d', \<lambda>n. g1 (n + 2)))"
      "render_column_doom e c (d, g2) = Some (Done (d', \<lambda>n. g2 (n + 2)))"
    then show ?thesis using Cons.IH[OF tl, of d'] by simp
  qed
qed

lemma frame_of_render_doom:
  "frame_of (render_doom e g) =
     (case frame_of (run_columns (render_column_doom e) [0..<width e] (blank_frame e, g)) of
        None \<Rightarrow> None
      | Some (TypeError d) \<Rightarrow> Some (TypeError d)
      | Some (Done d) \<Rightarrow> Some (Done (weapon_overlay e d)))"
  by (auto simp: render_doom_def frame_of_def split: option.splits outcome.splits)

lemma render_doom_draws:
  assumes "same_colour_draws e g1 g2"
  shows "frame_of (render_doom e g1) = frame_of (render_doom e g2)"
proof -
  have "\<forall>n < 2 * length [0..<width e]. \<lfloor>g1 n * 3\<rfloor> = \<lfloor>g2 n * 3\<rfloor>"
    using assms by (simp add: same_colour_draws_def)
  from run_columns_doom_draws[OF this, of e "blank_frame e"]
  show ?thesis by (simp only: frame_of_render_doom)
qed


subsection \<open>A first frame of the second file\<close>

lemma pick0: "fst (pick_colour floorColors 0) = 0x40"
  by (simp add: pick_colour_def floorColors_def js_index_def red_def)

lemma pick1: "fst (pick_colour floorColors (1/2)) = 0x4a"
  by (simp add: pick_colour_def floorColors_def js_index_def red_def)

lemma doom0_fields:
  "width doom_engine0 = 960" "height doom_engine0 = 720"
  "mapWidth doom_engine0 = 32" "mapHeight doom_engine0 = 32"
  "x (player doom_engine0) = 31/2" "y (player doom_engine0) = 31/2"
  "dirX (player doom_engine0) = - 1" "dirY (player doom_engine0) = 0"
  "planeX (player doom_engine0) = 0" "planeY (player doom_engine0) = 66/100"
  "textures doom_engine0 = doom_textures" "weaponBob doom_engine0 = 0"
  "weapon (player doom_engine0) = 0"
  "worldMap doom_engine0 = fst (final (createDoomMap (\<lambda>_. 0)))"
  by (simp_all add: doom_engine0_def)

lemma doom0_cells:
  "cell_at (fst (final (createDoomMap (\<lambda>_. 0)))) 15 14 = Cell 0"
  "cell_at (fst (final (createDoomMap (\<lambda>_. 0)))) 16 14 = Cell 0"
  "cell_at (fst (final (createDoomMap (\<lambda>_. 0)))) 16 13 = Cell 0"
  "cell_at (fst (final (createDoomMap (\<lambda>_. 0)))) 17 13 = Cell 0"
  "cell_at (fst (final (createDoomMap (\<lambda>_. 0)))) 17 12 = Cell 1"
  by code_simp+

lemma doom0_ray:
  "make_ray doom_engine0 959
   = \<lparr>rayDirX = - 1, rayDirY = 5269/8000, deltaDistX = Fin 1, deltaDistY = Fin (8000/5269)\<rparr>"
  by (simp add: make_ray_def Let_def doom0_fields)

lemma doom0_init:
  "dda_init doom_engine0 (make_ray doom_engine0 959)
   = \<lparr>sideDistX = Fin (1/2), sideDistY = Fin (4000/5269), mapX = 15, mapY = 15, side = 0, steps = 0\<rparr>"
  unfolding doom0_ray by (simp add: dda_init_def Let_def doom0_fields)


lemma dda_continue:
  assumes "dda_advance r s = s'" "in_grid e (mapX s') (mapY s')"
    "cell_at (worldMap e) (mapY s') (mapX s') = Cell 0"
  shows "dda e r s = dda e r s'"
  using assms by (subst dda.simps) simp

lemma dda_hit:
  assumes "dda_advance r s = s'" "in_grid e (mapX s') (mapY s')"
    "cell_at (worldMap e) (mapY s') (mapX s') = Cell v" "0 < v"
  shows "dda e r s = Done s'"
  using assms by (subst dda.simps) simp

lemma doom0_cast:
  "\<exists>s. cast_ray doom_engine0 959 = Done s \<and> mapX s = 12 \<and> mapY s = 17 \<and> side s = 0"
proof -
  let ?r = "\<lparr>rayDirX = - 1, rayDirY = 5269/8000, deltaDistX = Fin 1, deltaDistY = Fin (8000/5269)\<rparr>"
  let ?s0 = "\<lparr>sideDistX = Fin (1/2), sideDistY = Fin (4000/5269), mapX = 15, mapY = 15, side = 0, steps = 0\<rparr>"
  let ?s1 = "\<lparr>sideDistX = Fin (3/2), sideDistY = Fin (4000/5269), mapX = 14, mapY = 15, side = 0, steps = 1\<rparr>"
  let ?s2 = "\<lparr>sideDistX = Fin (3/2), sideDistY = Fin (12000/5269), mapX = 14, mapY = 16, side = 1, steps = 2\<rparr>"
  let ?s3 = "\<lparr>sideDistX = Fin (5/2), sideDistY = Fin (12000/5269), mapX = 13, mapY = 16, side = 0, steps = 3\<rparr>"
  let ?s4 = "\<lparr>sideDistX = Fin (5/2), sideDistY = Fin (20000/5269), mapX = 13, mapY = 17, side = 1, steps = 4\<rparr>"
  let ?s5 = "\<lparr>sideDistX = Fin (7/2), sideDistY = Fin (20000/5269), mapX = 12, mapY = 17, side = 0, steps = 5\<rparr>"
  have a1: "dda_advance ?r ?s0 = ?s1" by (simp add: dda_advance_def stepX_def stepY_def)
  have a2: "dda_advance ?r ?s1 = ?s2" by (simp add: dda_advance_def stepX_def stepY_def)
  have a3: "dda_advance ?r ?s2 = ?s3" by (simp add: dda_advance_def stepX_def stepY_def)
  have a4: "dda_advance ?r ?s3 = ?s4" by (simp add: dda_advance_def stepX_def stepY_def)
  have a5: "dda_advance ?r ?s4 = ?s5" by (simp add: dda_advance_def stepX_def stepY_def)
  note c = doom0_cells[folded doom0_fields(14)]
  have "dda doom_engine0 ?r ?s0 = dda doom_engine0 ?r ?s1"
    by (rule dda_continue[OF a1]) (simp_all add: in_grid_def doom0_fields(3,4) c)
  also have "\<dots> = dda doom_engine0 ?r ?s2"
    by (rule dda_continue[OF a2]) (simp_all add: in_grid_def doom0_fields(3,4) c)
  also have "\<dots> = dda doom_engine0 ?r ?s3"
    by (rule dda_continue[OF a3]) (simp_all add: in_grid_def doom0_fields(3,4) c)
  also have "\<dots> = dda doom_engine0 ?r ?s4"
    by (rule dda_continue[OF a4]) (simp_all add: in_grid_def doom0_fields(3,4) c)
  also have "\<dots> = Done ?s5"
    by (rule dda_hit[OF a5, where v = 1]) (simp_all add: in_grid_def doom0_fields(3,4) c)
  finally show ?thesis by (simp add: cast_ray_def doom0_init[unfolded doom0_ray] doom0_ray)
qed

lemma doom0_map:
  "grid32 (worldMap doom_engine0) \<and> border_walls (worldMap doom_engine0)"
proof -
  have g: "good_rng (\<lambda>_. 0)" by (simp add: good_rng_def)
  from doom_map_layout_inv[where Q = good_rng, OF g good_rng_tail]
  have "walled_start_upto 4 (fst (doom_map_layout (\<lambda>_. 0)))" "good_rng (snd (doom_map_layout (\<lambda>_. 0)))"
    by (simp_all add: start_empty_upto)
  from pillars_inv[OF this, of 20] obtain m g' where
    "createDoomMap (\<lambda>_. 0) = Done (m, g')" "walled_start_upto 4 m"
    by (auto simp: createDoomMap_def)
  then show ?thesis by (simp add: doom0_fields walled_start_upto_def)
qed

lemma grid32_sealed:
  assumes "mapWidth e = 32" "mapHeight e = 32" "grid32 (worldMap e)" "border_walls (worldMap e)"
  shows "grid_ok e" "sealed e"
proof -
  show "grid_ok e" using assms by (simp add: grid_ok_def grid32_def)
  show "sealed e" using assms(1,2,4) unfolding sealed_def border_walls_def by auto
qed

lemma textures_nonempty: "main_textures \<noteq> []" "doom_textures \<noteq> []"
  by (simp_all add: main_textures_def doom_textures_def)

lemma cast_ray_wall:
  assumes "grid_ok e" "sealed e" "inside e \<lfloor>x (player e)\<rfloor> \<lfloor>y (player e)\<rfloor>"
  shows "\<exists>s v. cast_ray e col = Done s \<and> in_grid e (mapX s) (mapY s)
          \<and> cell_at (worldMap e) (mapY s) (mapX s) = Cell v \<and> 0 < v"
proof -
  have "inside e (mapX (dda_init e (make_ray e col))) (mapY (dda_init e (make_ray e col)))"
    using assms(3) by (simp add: dda_init_def Let_def)
  from dda_hits_inside_sealed[OF assms(1) assms(2) this]
  show ?thesis by (simp add: cast_ray_def)
qed

lemma doom0_column:
  "\<exists>d'. render_column_doom doom_engine0 col (d, g) = Some (Done (d', \<lambda>n. g (n + 2)))
        \<and> length d' = length d"
proof -
  note m = doom0_map
  have ok: "grid_ok doom_engine0" "sealed doom_engine0"
    using grid32_sealed[of doom_engine0] m by (simp_all add: doom0_fields(3,4))
  have ins: "inside doom_engine0 \<lfloor>x (player doom_engine0)\<rfloor> \<lfloor>y (player doom_engine0)\<rfloor>"
    by (simp add: inside_def doom0_fields)
  from cast_ray_wall[OF ok ins, of col] obtain s v where
    s: "cast_ray doom_engine0 col = Done s"
      "cell_at (worldMap doom_engine0) (mapY s) (mapX s) = Cell v" "0 < v" by blast
  have "textures doom_engine0 \<noteq> []" by (simp add: doom0_fields textures_nonempty)
  from get_texture_wall[OF s(2,3) this] obtain tex where "get_texture doom_engine0 s = Some tex" ..
  from render_column_doom_total[OF s(1) this] show ?thesis .
qed

lemma run_columns_all_done:
  assumes "\<And>c d g. \<exists>d'. f c (d, g) = Some (Done (d', \<lambda>n. g (n + 2))) \<and> length d' = length d"
  shows "\<exists>d'. run_columns f cs (d, g) = Some (Done (d', \<lambda>n. g (n + 2 * length cs)))
             \<and> length d' = length d"
proof (induction cs arbitrary: d g)
  case Nil
  then show ?case by simp
next
  case (Cons c cs)
  from assms[of c d g] obtain d1 where
    d1: "f c (d, g) = Some (Done (d1, \<lambda>n. g (n + 2)))" "length d1 = length d" by blast
  from Cons.IH[of d1 "\<lambda>n. g (n + 2)"] obtain d2 where
    d2: "run_columns f cs (d1, \<lambda>n. g (n + 2)) = Some (Done (d2, \<lambda>n. g (n + 2 * length cs + 2)))"
      "length d2 = length d1" by auto
  have "(\<lambda>n. g (n + 2 * length cs + 2)) = (\<lambda>n. g (n + 2 * length (c # cs)))"
    by (simp add: add.assoc)
  with d1 d2 show ?case by simp
qed

lemma run_columns_snoc:
  assumes "run_columns f cs s = Some (Done s1)"
  shows "run_columns f (cs @ [c]) s =
     (case f c s1 of None \<Rightarrow> None | Some (TypeError s') \<Rightarrow> Some (TypeError s')
      | Some (Done s') \<Rightarrow> Some (Done s'))"
  using assms
proof (induction cs arbitrary: s)
  case Nil
  then show ?case by (simp split: option.splits outcome.splits)
next
  case (Cons a cs)
  then show ?case by (auto split: option.splits outcome.splits)
qed

lemma rows_from_snoc: "rows_from a (Suc n) = rows_from a n @ [Fin (a + real n)]"
  by (simp add: rows_from_def)

lemma put_rgba_other:
  "j < n \<or> n + 3 < j \<Longrightarrow> put_rgba d (Fin (real n)) r g b ! j = d ! j"
  by (auto simp: put_rgba_nat)

lemma put_rgba_first:
  "n + 3 < length d \<Longrightarrow> put_rgba d (Fin (real n)) r g b ! n = r"
  by (simp add: put_rgba_nat)

lemma flat_pixel_above:
  assumes "col < width e" "(k + 1) * width e * 4 \<le> j"
  shows "flat_pixel e col c (Fin (real k)) d ! j = d ! j"
proof -
  have "(k * width e + col) * 4 + 3 < (k + 1) * width e * 4" using assms(1) by simp
  with assms(2) have "(k * width e + col) * 4 + 3 < j" by linarith
  then show ?thesis
    by (simp add: flat_pixel_def pixel_index_nat put_rgba_above del: of_nat_mult of_nat_add)
qed

lemma flat_pixel_first:
  "pixel_index e col row = Fin (real n) \<Longrightarrow> n + 3 < length d
   \<Longrightarrow> flat_pixel e col c row d ! n = fst c"
  by (simp add: flat_pixel_def put_rgba_first)

lemma fold_flat_above:
  assumes "col < width e" "\<forall>k \<in> set ks. (k + 1) * width e * 4 \<le> j"
  shows "fold (flat_pixel e col c) (map (\<lambda>k. Fin (real k)) ks) d ! j = d ! j"
  using assms(2)
proof (induction ks arbitrary: d)
  case Nil
  then show ?case by simp
next
  case (Cons k ks)
  then show ?case using flat_pixel_above[OF assms(1), of k j c d] by simp
qed

lemma length_fold_flat: "length (fold (flat_pixel e col c) rs d) = length d"
  by (induction rs arbitrary: d) (simp_all add: length_flat_pixel)

lemma doom0_last_strip:
  assumes "mapX s = 12" "mapY s = 17" "side s = 0"
  shows "lineHeight doom_engine0 (make_ray doom_engine0 959) s = Fin 288"
    and "\<exists>tex. get_texture doom_engine0 s = Some tex"
proof -
  have "perpWallDist doom_engine0 (make_ray doom_engine0 959) s = Fin (5/2)"
    unfolding doom0_ray by (simp add: perpWallDist_def assms stepX_def doom0_fields)
  then show "lineHeight doom_engine0 (make_ray doom_engine0 959) s = Fin 288"
    by (simp add: lineHeight_def doom0_fields)
  have c: "cell_at (worldMap doom_engine0) (mapY s) (mapX s) = Cell 1"
    by (simp add: assms doom0_fields(14) doom0_cells)
  have "textures doom_engine0 \<noteq> []" by (simp add: doom0_fields textures_nonempty)
  from get_texture_wall[OF c _ this] show "\<exists>tex. get_texture doom_engine0 s = Some tex" by simp
qed

lemma doom0_limits:
  "drawStart doom_engine0 (Fin 288) = Fin 216" "drawEnd doom_engine0 (Fin 288) = Fin 504"
  by (simp_all add: drawStart_def drawEnd_def Let_def doom0_fields)

lemma doom0_floor_ceiling:
  assumes "mapX s = 12" "mapY s = 17" "side s = 0" "length d = 2764800"
  shows "\<exists>d'. draw_floor_ceiling doom_engine0 959 s fc cc d = Some d'
            \<and> length d' = length d \<and> d' ! 2764796 = fst fc"
proof -
  let ?e = doom_engine0
  note lh = doom0_last_strip(1)[OF assms(1-3)]
  let ?d1 = "fold (flat_pixel ?e 959 fc) (rows_from 505 214) d"
  let ?d2 = "flat_pixel ?e 959 fc (Fin (real (719::nat))) ?d1"
  have r: "rows_from 505 215 = rows_from 505 214 @ [Fin (real (719::nat))]"
    using rows_from_snoc[of 505 214] by simp
  have fl: "js_for (jadd (drawEnd ?e (Fin 288)) (Fin 1)) (Fin (real (height ?e)))
              (flat_pixel ?e 959 fc) d = Some ?d2"
  proof -
    have e1: "jadd (drawEnd ?e (Fin 288)) (Fin 1) = Fin 505" "Fin (real (height ?e)) = Fin 720"
      by (simp_all add: doom0_limits doom0_fields)
    have j1: "js_for (Fin 505) (Fin 720) (flat_pixel ?e 959 fc) d
              = Some (fold (flat_pixel ?e 959 fc) (rows_from 505 215) d)"
      unfolding js_for_fin by simp
    show ?thesis unfolding e1 j1 r by simp
  qed
  have l1: "length ?d1 = 2764800" by (simp add: length_fold_flat assms(4))
  have pi: "pixel_index ?e 959 (Fin (real (719::nat))) = Fin (real (2764796::nat))"
    by (simp add: pixel_index_def doom0_fields)
  have v2: "?d2 ! 2764796 = fst fc"
    by (rule flat_pixel_first[OF pi]) (simp add: l1)
  have l2: "length ?d2 = 2764800" by (simp only: length_flat_pixel l1)
  let ?d3 = "fold (flat_pixel ?e 959 cc) (rows_from 0 216) ?d2"
  have ce: "js_for (Fin 0) (drawStart ?e (Fin 288)) (flat_pixel ?e 959 cc) ?d2 = Some ?d3"
    by (simp add: doom0_limits js_for_fin)
  have ab: "fold (flat_pixel ?e 959 cc) (rows_from 0 216) dd ! 2764796 = dd ! 2764796" for dd
  proof -
    have rr: "rows_from 0 216 = map (\<lambda>k. Fin (real k)) [0..<216]"
      by (simp add: rows_from_def)
    show ?thesis unfolding rr
      by (rule fold_flat_above) (simp_all add: doom0_fields)
  qed
  have v3: "?d3 ! 2764796 = fst fc" by (simp only: ab v2)
  have l3: "length ?d3 = length d" by (simp only: length_fold_flat l2 assms(4))
  have "draw_floor_ceiling ?e 959 s fc cc d = Some ?d3"
    unfolding draw_floor_ceiling_def Let_def lh fl option.case ce by (rule refl)
  with v3 l3 show ?thesis by blast
qed

lemma doom0_last_column:
  assumes "length d = 2764800"
  shows "\<exists>d'. render_column_doom doom_engine0 959 (d, g) = Some (Done (d', \<lambda>n. g (n + 2)))
            \<and> length d' = length d \<and> d' ! 2764796 = fst (pick_colour floorColors (g 0))"
proof -
  from doom0_cast obtain s where
    s: "cast_ray doom_engine0 959 = Done s" "mapX s = 12" "mapY s = 17" "side s = 0" by blast
  from doom0_last_strip(2)[OF s(2-4)] obtain tex where
    tex: "get_texture doom_engine0 s = Some tex" ..
  from draw_wall_total[of doom_engine0 959 s tex d] obtain d1 where
    d1: "draw_wall doom_engine0 959 s tex d = Some d1" "length d1 = length d" by blast
  from doom0_floor_ceiling[OF s(2-4), of d1 "pick_colour floorColors (g 0)"
      "pick_colour ceilingColors (g 1)"] d1 assms
  obtain d2 where "draw_floor_ceiling doom_engine0 959 s (pick_colour floorColors (g 0))
      (pick_colour ceilingColors (g 1)) d1 = Some d2" "length d2 = length d"
    "d2 ! 2764796 = fst (pick_colour floorColors (g 0))" by auto
  with s(1) tex d1 show ?thesis
    by (simp add: render_column_doom_def math_random_def Let_def)
qed

lemma length_weapon_pixel: "length (weapon_pixel e wy wx d) = length d"
  by (simp add: weapon_pixel_def Let_def length_put_rgba)

lemma weapon_index_misses:
  assumes "wx < (200::nat)"
  shows "2764796 < ((540 + wy) * 960 + 430 + wx) * 4
       \<or> ((540 + wy) * 960 + 430 + wx) * 4 + 3 < 2764796"
proof -
  consider "wy \<le> 179" | "180 \<le> wy" by linarith
  then show ?thesis
  proof cases
    case 1
    then have "((540 + wy) * 960 + 430 + wx) * 4 + 3 < 2764796" using assms by (simp add: algebra_simps)
    then show ?thesis ..
  next
    case 2
    then have "2764796 < ((540 + wy) * 960 + 430 + wx) * 4" by (simp add: algebra_simps)
    then show ?thesis ..
  qed
qed


lemma weapon_pixel_cases:
  "weapon_pixel e wy wx d = d \<or>
   weapon_pixel e wy wx d =
     put_rgba d (Fin (((real (height e) - 200 + 20 + weaponBob e + real wy) * real (width e)
                        + ((real (width e) - 200) / 2 + 50 + real wx)) * 4)) 0x44 0x44 0x44"
  by (simp add: weapon_pixel_def Let_def)

lemma doom0_weapon_pixel:
  assumes "wx < 200"
  shows "weapon_pixel doom_engine0 wy wx d ! 2764796 = d ! 2764796"
proof -
  let ?n = "((540 + wy) * 960 + 430 + wx) * 4"
  have idx: "((real (height doom_engine0) - 200 + 20 + weaponBob doom_engine0 + real wy)
               * real (width doom_engine0)
             + ((real (width doom_engine0) - 200) / 2 + 50 + real wx)) * 4 = real ?n"
    by (simp add: doom0_fields)
  have "2764796 < ?n \<or> ?n + 3 < 2764796" by (rule weapon_index_misses[OF assms])
  then have "put_rgba d (Fin (real ?n)) r g b ! 2764796 = d ! 2764796" for r g b
    by (rule put_rgba_other)
  then show ?thesis
    using weapon_pixel_cases[of doom_engine0 wy wx d] unfolding idx by auto
qed

lemma doom0_overlay:
  "length (weapon_overlay doom_engine0 d) = length d
   \<and> weapon_overlay doom_engine0 d ! 2764796 = d ! 2764796"
proof -
  have "length (for_yx 0 200 0 200 (weapon_pixel doom_engine0) d) = length d
      \<and> for_yx 0 200 0 200 (weapon_pixel doom_engine0) d ! 2764796 = d ! 2764796"
    by (rule for_yx_inv[where P = "\<lambda>d'. length d' = length d \<and> d' ! 2764796 = d ! 2764796"])
       (simp_all add: length_weapon_pixel doom0_weapon_pixel)
  then show ?thesis by (simp add: weapon_overlay_def doom0_fields)
qed

lemma doom0_render:
  "\<exists>d. render_doom doom_engine0 g = Some (Done (d, \<lambda>n. g (n + 1920)))
       \<and> length d = 2764800 \<and> d ! 2764796 = fst (pick_colour floorColors (g 1918))"
proof -
  let ?f = "render_column_doom doom_engine0"
  let ?b = "blank_frame doom_engine0"
  have lb: "length ?b = 2764800" by (simp add: blank_frame_def doom0_fields)
  from run_columns_all_done[where f = ?f and cs = "[0..<959]" and d = ?b and g = g, OF doom0_column]
  obtain d1 where d1: "run_columns ?f [0..<959] (?b, g) = Some (Done (d1, \<lambda>n. g (n + 1918)))"
    "length d1 = 2764800" using lb by auto
  from doom0_last_column[OF d1(2), of "\<lambda>n. g (n + 1918)"] obtain d2 where
    d2: "?f 959 (d1, \<lambda>n. g (n + 1918)) = Some (Done (d2, \<lambda>n. g (n + 2 + 1918)))"
    "length d2 = 2764800" "d2 ! 2764796 = fst (pick_colour floorColors (g 1918))"
    using d1(2) by auto
  have "(960::nat) = Suc 959" by simp
  then have up: "[0..<960] = [0..<959] @ [959]" by (simp only: upt_Suc) simp
  have "run_columns ?f [0..<960] (?b, g) = Some (Done (d2, \<lambda>n. g (n + 1920)))"
  proof -
    have "n + 2 + 1918 = n + 1920" for n :: nat by simp
    then have "(\<lambda>n. g (n + 2 + 1918)) = (\<lambda>n. g (n + 1920))" by (simp only:)
    with d2(1) have "?f 959 (d1, \<lambda>n. g (n + 1918)) = Some (Done (d2, \<lambda>n. g (n + 1920)))"
      by simp
    with run_columns_snoc[OF d1(1), of 959] show ?thesis unfolding up by simp
  qed
  then have "render_doom doom_engine0 g
             = Some (Done (weapon_overlay doom_engine0 d2, \<lambda>n. g (n + 1920)))"
    by (simp add: render_doom_def doom0_fields)
  with doom0_overlay[of d2] d2 show ?thesis by simp
qed

text \<open>
  Claim C1 as stated fails on the second file: two render steps in a row, with no change
  of the pose, the map grid or the texture set in between, give two different frame
  buffers when the random source answers 0 during the first step and one half during the
  second. The red byte of the bottom right pixel is \<open>0x40\<close> in the first frame and \<open>0x4a\<close>
  in the second.
\<close>

theorem doom_render_twice_differs:
  "\<exists>d1 g1 d2 g2. render_doom doom_engine0 flicker_rng = Some (Done (d1, g1))
      \<and> render_doom doom_engine0 g1 = Some (Done (d2, g2)) \<and> d1 \<noteq> d2"
proof -
  from doom0_render[of flicker_rng] obtain d1 where
    d1: "render_doom doom_engine0 flicker_rng = Some (Done (d1, \<lambda>n. flicker_rng (n + 1920)))"
    "d1 ! 2764796 = fst (pick_colour floorColors (flicker_rng 1918))" by blast
  from doom0_render[of "\<lambda>n. flicker_rng (n + 1920)"] obtain d2 g2 where
    d2: "render_doom doom_engine0 (\<lambda>n. flicker_rng (n + 1920)) = Some (Done (d2, g2))"
    "d2 ! 2764796 = fst (pick_colour floorColors (flicker_rng (1918 + 1920)))" by blast
  have "d1 ! 2764796 = 0x40" using d1(2) by (simp add: flicker_rng_def pick0)
  moreover have "d2 ! 2764796 = 0x4a" using d2(2) by (simp add: flicker_rng_def pick1)
  ultimately have "d1 \<noteq> d2" by auto
  with d1(1) d2(1) show ?thesis
    by (intro exI[of _ d1] exI[of _ "\<lambda>n. flicker_rng (n + 1920)"] exI[of _ d2] exI[of _ g2]) simp
qed


subsection \<open>What a frame depends on\<close>

text \<open>
  Claim C1, as amended. The render step of the first file is a function of the pose, the
  map grid and the texture set (and the fixed screen and grid sizes): two engine states
  that agree on them give the same result, in particular the same frame buffer, whatever
  else differs between them. The render step of the second file also reads the random
  source, twice per screen column (the floor colour and the ceiling colour of the column,
  each out of three): from one engine state, two render steps whose \<open>2 * width\<close> random
  draws select the same colours, as they do when the draws are equal, give the same
  frame buffer.
\<close>

theorem render_frames_determined:
  "(same_inputs e1 e2 \<longrightarrow> render_main e1 = render_main e2) \<and>
   (same_colour_draws e g1 g2 \<longrightarrow>
      frame_of (render_doom e g1) = frame_of (render_doom e g2))"
proof (intro conjI impI)
  assume "same_inputs e1 e2"
  then show "render_main e1 = render_main e2" by (rule same_render_main)
next
  assume "same_colour_draws e g1 g2"
  then show "frame_of (render_doom e g1) = frame_of (render_doom e g2)"
    by (rule render_doom_draws)
qed

text \<open>
  The statement at two states of the first file that differ in health, ammunition, weapon
  and weapon bob, and at two random sources of the second file that differ in every draw
  of the frame and select the first colour in each of them.
\<close>

theorem render_frames_determined_witness:
  "same_inputs boxed_engine
     (boxed_engine\<lparr>player := (player boxed_engine)\<lparr>health := 40, ammo := 7, weapon := 2\<rparr>,
                   weaponBob := 3\<rparr>)
   \<and> render_main boxed_engine =
       render_main
         (boxed_engine\<lparr>player := (player boxed_engine)\<lparr>health := 40, ammo := 7, weapon := 2\<rparr>,
                       weaponBob := 3\<rparr>)
   \<and> same_colour_draws doom_engine0 flicker_rng (\<lambda>_. 1/10)
   \<and> frame_of (render_doom doom_engine0 flicker_rng)
       = frame_of (render_doom doom_engine0 (\<lambda>_. 1/10))"
proof -
  let ?e2 = "boxed_engine\<lparr>player := (player boxed_engine)\<lparr>health := 40, ammo := 7, weapon := 2\<rparr>,
                          weaponBob := 3\<rparr>"
  have a: "same_inputs boxed_engine ?e2" by (simp add: same_inputs_def)
  have b: "same_colour_draws doom_engine0 flicker_rng (\<lambda>_. 1/10)"
    by (simp add: same_colour_draws_def flicker_rng_def doom0_fields)
  from render_frames_determined[of boxed_engine ?e2 doom_engine0 flicker_rng "\<lambda>_. 1/10"] a b
  show ?thesis by blast
qed

end
